theory Spec2Isabelle
  imports Complex_Main "HOL-Library.AList" "HOL-Library.Multiset"
begin

section \<open>Python strings\<close>

text \<open>
  A Python \<open>str\<close> is modelled as a \<open>string\<close>, a list of 8-bit characters read as the
  code points U+0000 to U+00FF, so that \<open>length\<close> is Python's \<open>len\<close>. The functions of
  this section are the \<open>str\<close> methods the sources call, on that range.
\<close>

definition newline :: char where
  "newline = CHR 0x0A"

definition isspace :: "char \<Rightarrow> bool" where
  "isspace c = (c \<in> set [CHR 0x09, CHR 0x0A, CHR 0x0B, CHR 0x0C, CHR 0x0D,
                          CHR 0x1C, CHR 0x1D, CHR 0x1E, CHR 0x1F, CHR 0x20,
                          CHR 0x85, CHR 0xA0])"

definition lstrip :: "string \<Rightarrow> string" where
  "lstrip s = dropWhile isspace s"

definition rstrip :: "string \<Rightarrow> string" where
  "rstrip s = rev (dropWhile isspace (rev s))"

definition strip :: "string \<Rightarrow> string" where
  "strip s = rstrip (lstrip s)"

definition upper_chars :: string where
  "upper_chars = ''ABCDEFGHIJKLMNOPQRSTUVWXYZ'' @
     [CHR 0xC0, CHR 0xC1, CHR 0xC2, CHR 0xC3, CHR 0xC4, CHR 0xC5, CHR 0xC6, CHR 0xC7,
      CHR 0xC8, CHR 0xC9, CHR 0xCA, CHR 0xCB, CHR 0xCC, CHR 0xCD, CHR 0xCE, CHR 0xCF,
      CHR 0xD0, CHR 0xD1, CHR 0xD2, CHR 0xD3, CHR 0xD4, CHR 0xD5, CHR 0xD6,
      CHR 0xD8, CHR 0xD9, CHR 0xDA, CHR 0xDB, CHR 0xDC, CHR 0xDD, CHR 0xDE]"

definition lower_chars :: string where
  "lower_chars = ''abcdefghijklmnopqrstuvwxyz'' @
     [CHR 0xE0, CHR 0xE1, CHR 0xE2, CHR 0xE3, CHR 0xE4, CHR 0xE5, CHR 0xE6, CHR 0xE7,
      CHR 0xE8, CHR 0xE9, CHR 0xEA, CHR 0xEB, CHR 0xEC, CHR 0xED, CHR 0xEE, CHR 0xEF,
      CHR 0xF0, CHR 0xF1, CHR 0xF2, CHR 0xF3, CHR 0xF4, CHR 0xF5, CHR 0xF6,
      CHR 0xF8, CHR 0xF9, CHR 0xFA, CHR 0xFB, CHR 0xFC, CHR 0xFD, CHR 0xFE]"

definition lower_char :: "char \<Rightarrow> char" where
  "lower_char c = (case map_of (zip upper_chars lower_chars) c of Some l \<Rightarrow> l | None \<Rightarrow> c)"

definition lower :: "string \<Rightarrow> string" where
  "lower s = map lower_char s"

definition startswith :: "string \<Rightarrow> string \<Rightarrow> bool" where
  "startswith s p = (take (length p) s = p)"

definition endswith :: "string \<Rightarrow> string \<Rightarrow> bool" where
  "endswith s p = (length p \<le> length s \<and> drop (length s - length p) s = p)"

text \<open>\<open>s.split(sep)\<close> for a one-character separator: never the empty list.\<close>

primrec split_char :: "char \<Rightarrow> string \<Rightarrow> string list" where
  "split_char sep [] = [[]]"
| "split_char sep (c # cs) =
     (let ps = split_char sep cs
      in if c = sep then [] # ps else (c # hd ps) # tl ps)"

text \<open>\<open>s.replace(old, new)\<close>: the occurrences of \<open>old\<close> are found from left to right and
  do not overlap.\<close>

fun str_replace :: "string \<Rightarrow> string \<Rightarrow> string \<Rightarrow> string" where
  "str_replace old new [] = (if old = [] then new else [])"
| "str_replace old new (c # cs) =
     (if old = [] then new @ c # str_replace old new cs
      else if take (length old) (c # cs) = old
      then new @ str_replace old new (drop (length old) (c # cs))
      else c # str_replace old new cs)"

text \<open>\<open>str(n)\<close> for a natural number, as the f-strings of the error messages print it.\<close>

definition digit_char :: "nat \<Rightarrow> char" where
  "digit_char d = ''0123456789'' ! d"

function str_nat :: "nat \<Rightarrow> string" where
  "str_nat n = (if n < 10 then [digit_char n] else str_nat (n div 10) @ [digit_char (n mod 10)])"
  by pat_completeness auto
termination
  by (relation "measure id") auto

definition str_int :: "int \<Rightarrow> string" where
  "str_int i = (if i < 0 then CHR ''-'' # str_nat (nat (- i)) else str_nat (nat i))"

section \<open>The regular expressions of \<open>_compile_pattern\<close>\<close>

text \<open>
  \<open>re.escape\<close> puts a backslash before each of the characters below and leaves every
  other character as it is.
\<close>

definition re_special :: "char \<Rightarrow> bool" where
  "re_special c = (c \<in> set (''()[]{}?*+-|^$.&~# '' @
                             [CHR 0x5C, CHR 0x09, CHR 0x0A, CHR 0x0D, CHR 0x0B, CHR 0x0C]))"

definition re_escape :: "string \<Rightarrow> string" where
  "re_escape s = concat (map (\<lambda>c. if re_special c then [CHR 0x5C, c] else [c]) s)"

text \<open>
  The compiled pattern is a sequence of items. \<open>_compile_pattern\<close> builds its expression
  from an escaped string, \<open>.*\<close>, \<open>$\<close> and a leading \<open>^\<close> only, and \<open>re_compile\<close> reads
  exactly that fragment of the syntax: a backslash and the character it escapes, an
  ordinary character, \<open>.*\<close>, \<open>$\<close> and \<open>^\<close>. \<open>None\<close> stands for an expression outside the
  fragment (a backslash before an ASCII letter or digit is a class or a group reference,
  an unescaped special character an operator).
\<close>

datatype re_item = Lit char | DotStar | Dollar | Caret

definition is_ascii_alnum :: "char \<Rightarrow> bool" where
  "is_ascii_alnum c =
     (c \<in> set (''0123456789'' @ ''ABCDEFGHIJKLMNOPQRSTUVWXYZ'' @ ''abcdefghijklmnopqrstuvwxyz''))"

fun re_compile :: "string \<Rightarrow> re_item list option" where
  "re_compile [] = Some []"
| "re_compile (c # cs) =
     (if c = CHR 0x5C then
        (case cs of
           [] \<Rightarrow> None
         | d # ds \<Rightarrow> if is_ascii_alnum d then None else map_option ((#) (Lit d)) (re_compile ds))
      else if c = CHR ''.'' then
        (case cs of
           [] \<Rightarrow> None
         | d # ds \<Rightarrow> if d = CHR ''*'' then map_option ((#) DotStar) (re_compile ds) else None)
      else if c = CHR ''$'' then map_option ((#) Dollar) (re_compile cs)
      else if c = CHR ''^'' then map_option ((#) Caret) (re_compile cs)
      else if re_special c then None
      else map_option ((#) (Lit c)) (re_compile cs))"

text \<open>
  Matching from a position of the subject: the flag says whether the position is the
  start of the string. \<open>.\<close> matches any character but a newline, \<open>$\<close> matches at the end
  of the string and just before a newline that ends it, and a match need not reach the
  end of the subject (\<open>Pattern.match\<close>).
\<close>

fun re_match_here :: "bool \<Rightarrow> re_item list \<Rightarrow> string \<Rightarrow> bool" where
  "re_match_here b [] s = True"
| "re_match_here b (Lit c # r) [] = False"
| "re_match_here b (Lit c # r) (x # xs) = (x = c \<and> re_match_here False r xs)"
| "re_match_here b (DotStar # r) [] = re_match_here b r []"
| "re_match_here b (DotStar # r) (x # xs) =
     (re_match_here b r (x # xs) \<or> (x \<noteq> newline \<and> re_match_here False (DotStar # r) xs))"
| "re_match_here b (Dollar # r) s = ((s = [] \<or> s = [newline]) \<and> re_match_here b r s)"
| "re_match_here b (Caret # r) s = (b \<and> re_match_here b r s)"

definition re_match :: "re_item list \<Rightarrow> string \<Rightarrow> bool" where
  "re_match r s = re_match_here True r s"

section \<open>Robots directives and per-agent rules\<close>

record RobotsDirective =
  path :: string
  allow :: bool
  pattern :: "re_item list option"

definition compile_pattern :: "string \<Rightarrow> re_item list option" where
  "compile_pattern p =
     (let escaped = re_escape p;
          escaped = str_replace [CHR 0x5C, CHR ''*''] ''.*'' escaped;
          escaped = str_replace [CHR 0x5C, CHR ''$''] ''$'' escaped;
          escaped = (if \<not> endswith escaped ''$'' \<and> \<not> endswith escaped ''.*''
                     then escaped @ ''.*'' else escaped)
      in re_compile (CHR ''^'' # escaped))"

definition mk_RobotsDirective :: "string \<Rightarrow> bool \<Rightarrow> RobotsDirective" where
  "mk_RobotsDirective p a = \<lparr>path = p, allow = a, pattern = compile_pattern p\<rparr>"

text \<open>\<open>matches\<close>: a directive whose expression did not compile would not exist (the
  constructor would have raised); \<open>compile_pattern_total\<close> below shows there is none.\<close>

definition matches :: "RobotsDirective \<Rightarrow> string \<Rightarrow> bool" where
  "matches d p = (case pattern d of None \<Rightarrow> False | Some r \<Rightarrow> re_match r p)"

record 'f UserAgentRules =
  user_agent :: string
  directives :: "RobotsDirective list"
  crawl_delay :: "'f option"
  request_rate :: "(int \<times> int) option"
  ua_sitemaps :: "string list"

definition mk_UserAgentRules :: "string \<Rightarrow> 'f UserAgentRules" where
  "mk_UserAgentRules ua =
     \<lparr>user_agent = ua, directives = [], crawl_delay = None, request_rate = None,
      ua_sitemaps = []\<rparr>"

definition add_directive :: "string \<Rightarrow> bool \<Rightarrow> 'f UserAgentRules \<Rightarrow> 'f UserAgentRules" where
  "add_directive p a r = r\<lparr>directives := directives r @ [mk_RobotsDirective p a]\<rparr>"

text \<open>The loop of \<open>is_allowed\<close> (and of \<open>test_path\<close>): the state is \<open>best_match\<close>, whose
  path length is \<open>best_length\<close>; \<open>None\<close> is the initial \<open>best_length = -1\<close>.\<close>

definition best_step :: "string \<Rightarrow> RobotsDirective option \<Rightarrow> RobotsDirective \<Rightarrow> RobotsDirective option" where
  "best_step p best d =
     (if matches d p then
        (case best of
           None \<Rightarrow> Some d
         | Some b \<Rightarrow> if length (path d) > length (path b) then Some d else Some b)
      else best)"

definition best_match :: "RobotsDirective list \<Rightarrow> string \<Rightarrow> RobotsDirective option" where
  "best_match ds p = foldl (best_step p) None ds"

definition rules_is_allowed :: "'f UserAgentRules \<Rightarrow> string \<Rightarrow> bool" where
  "rules_is_allowed r p =
     (if directives r = [] then True
      else (case best_match (directives r) p of None \<Rightarrow> True | Some d \<Rightarrow> allow d))"

text \<open>The pieces the three steps of \<open>_compile_pattern\<close> make of one character of the path:
  after \<open>re.escape\<close>, after the replacement of the escaped star, after the replacement of
  the escaped dollar; and the item the character compiles to.\<close>

definition esc_unit :: "char \<Rightarrow> string" where
  "esc_unit c = (if re_special c then [CHR 0x5C, c] else [c])"

definition star_unit :: "char \<Rightarrow> string" where
  "star_unit c = (if c = CHR ''*'' then ''.*'' else esc_unit c)"

definition item_unit :: "char \<Rightarrow> string" where
  "item_unit c = (if c = CHR ''$'' then ''$'' else star_unit c)"

definition item_of :: "char \<Rightarrow> re_item" where
  "item_of c = (if c = CHR ''*'' then DotStar else if c = CHR ''$'' then Dollar else Lit c)"

text \<open>What the resolution rule promises: \<open>d\<close> is a directive of the list that matches the
  path, and no matching directive of the list has a longer pattern string.\<close>

definition longest_matching :: "RobotsDirective list \<Rightarrow> string \<Rightarrow> RobotsDirective \<Rightarrow> bool" where
  "longest_matching ds p d =
     (d \<in> set ds \<and> matches d p \<and>
      (\<forall>e \<in> set ds. matches e p \<longrightarrow> length (path e) \<le> length (path d)))"

definition private_rules :: "real UserAgentRules" where
  "private_rules = (mk_UserAgentRules ''*'')
     \<lparr>directives := [mk_RobotsDirective ''/private/'' False,
                     mk_RobotsDirective ''/private/public.html'' True]\<rparr>"

section \<open>The robots.txt parser\<close>

text \<open>
  A Python \<open>dict\<close> is an association list with distinct keys, in insertion order:
  \<open>map_of\<close> is the lookup, \<open>AList.update\<close> the assignment \<open>d[k] = v\<close> (an existing key
  keeps its place, a new one goes to the end), \<open>AList.map_entry\<close> a change of the value
  stored at a key that is present, \<open>AList.delete\<close> is \<open>del d[k]\<close>.

  \<open>float(value)\<close> and \<open>int(value)\<close> are the interpreter's; the parser is modelled over
  any pair of functions \<open>float_of\<close>, \<open>int_of\<close> that return \<open>None\<close> where the conversion
  raises \<open>ValueError\<close>. The type \<open>'f\<close> is the type of floats.
\<close>

record 'f RobotsParser =
  timeout :: nat
  user_agent_rules :: "(string \<times> 'f UserAgentRules) list"
  sitemaps :: "string list"
  raw_content :: string
  parse_errors :: "string list"
  url :: "string option"
  last_fetched :: "string option"

definition mk_RobotsParser :: "nat \<Rightarrow> 'f RobotsParser" where
  "mk_RobotsParser t =
     \<lparr>timeout = t, user_agent_rules = [], sitemaps = [], raw_content = [],
      parse_errors = [], url = None, last_fetched = None\<rparr>"

definition line_error :: "nat \<Rightarrow> string \<Rightarrow> string" where
  "line_error line_num msg = ''Line '' @ str_nat line_num @ '': '' @ msg"

definition add_error :: "string \<Rightarrow> 'f RobotsParser \<Rightarrow> 'f RobotsParser" where
  "add_error e P = P\<lparr>parse_errors := parse_errors P @ [e]\<rparr>"

text \<open>\<open>if ua not in self.user_agent_rules: self.user_agent_rules[ua] = UserAgentRules(ua)\<close>\<close>

definition ensure_rules ::
  "string \<Rightarrow> (string \<times> 'f UserAgentRules) list \<Rightarrow> (string \<times> 'f UserAgentRules) list" where
  "ensure_rules ua rules =
     (if map_of rules ua = None then AList.update ua (mk_UserAgentRules ua) rules else rules)"

text \<open>The branch of a \<open>user-agent\<close> line. The second component of the state is
  \<open>current_user_agents\<close>.\<close>

definition on_user_agent ::
  "string \<Rightarrow> 'f RobotsParser \<times> string list \<Rightarrow> 'f RobotsParser \<times> string list" where
  "on_user_agent val st =
     (let (P, cur) = st;
          P = P\<lparr>user_agent_rules := ensure_rules val (user_agent_rules P)\<rparr>
      in if cur \<noteq> [] \<and>
            (case map_of (user_agent_rules P) (hd cur) of
               None \<Rightarrow> False
             | Some r \<Rightarrow> directives r \<noteq> [])
         then (P, [val])
         else (P, cur @ [val]))"

text \<open>The branch of a \<open>disallow\<close> or \<open>allow\<close> line.\<close>

definition attach_directive ::
  "string \<Rightarrow> bool \<Rightarrow> string \<Rightarrow> (string \<times> 'f UserAgentRules) list \<Rightarrow>
   (string \<times> 'f UserAgentRules) list" where
  "attach_directive val is_allow ua rules =
     AList.map_entry ua (add_directive val is_allow) (ensure_rules ua rules)"

definition on_allow_disallow ::
  "bool \<Rightarrow> nat \<Rightarrow> string \<Rightarrow> 'f RobotsParser \<times> string list \<Rightarrow>
   'f RobotsParser \<times> string list" where
  "on_allow_disallow is_allow line_num val st =
     (let (P, cur) = st
      in if cur = [] then (add_error (line_error line_num ''Directive without user-agent'') P, cur)
         else (P\<lparr>user_agent_rules :=
                   fold (attach_directive val is_allow) cur (user_agent_rules P)\<rparr>, cur))"

text \<open>The branch of a \<open>crawl-delay\<close> line.\<close>

definition on_crawl_delay ::
  "(string \<Rightarrow> 'f option) \<Rightarrow> nat \<Rightarrow> string \<Rightarrow> 'f RobotsParser \<times> string list \<Rightarrow>
   'f RobotsParser \<times> string list" where
  "on_crawl_delay float_of line_num val st =
     (let (P, cur) = st
      in case float_of val of
           None \<Rightarrow> (add_error (line_error line_num ''Invalid crawl-delay value'') P, cur)
         | Some delay \<Rightarrow>
             (P\<lparr>user_agent_rules :=
                   fold (\<lambda>ua. AList.map_entry ua (\<lambda>r. r\<lparr>crawl_delay := Some delay\<rparr>)) cur
                     (user_agent_rules P)\<rparr>, cur))"

text \<open>The branch of a \<open>request-rate\<close> line: the two conversions come before the loop, and
  a value that does not split into two parts at \<open>/\<close> passes the \<open>if\<close> without effect.\<close>

definition on_request_rate ::
  "(string \<Rightarrow> int option) \<Rightarrow> nat \<Rightarrow> string \<Rightarrow> 'f RobotsParser \<times> string list \<Rightarrow>
   'f RobotsParser \<times> string list" where
  "on_request_rate int_of line_num val st =
     (let (P, cur) = st;
          parts = split_char CHR ''/'' val
      in if length parts = 2 then
           (case int_of (parts ! 0) of
              None \<Rightarrow> (add_error (line_error line_num ''Invalid request-rate value'') P, cur)
            | Some requests_count \<Rightarrow>
                (case int_of (parts ! 1) of
                   None \<Rightarrow> (add_error (line_error line_num ''Invalid request-rate value'') P, cur)
                 | Some seconds \<Rightarrow>
                     (P\<lparr>user_agent_rules :=
                           fold (\<lambda>ua. AList.map_entry ua
                                   (\<lambda>r. r\<lparr>request_rate := Some (requests_count, seconds)\<rparr>))
                             cur (user_agent_rules P)\<rparr>, cur)))
         else (P, cur))"

definition on_sitemap ::
  "string \<Rightarrow> 'f RobotsParser \<times> string list \<Rightarrow> 'f RobotsParser \<times> string list" where
  "on_sitemap val st =
     (let (P, cur) = st
      in if val \<noteq> [] \<and> val \<notin> set (sitemaps P)
         then (P\<lparr>sitemaps := sitemaps P @ [val]\<rparr>, cur)
         else (P, cur))"

text \<open>One turn of the loop of \<open>parse\<close> over the numbered lines.\<close>

definition parse_line ::
  "(string \<Rightarrow> 'f option) \<Rightarrow> (string \<Rightarrow> int option) \<Rightarrow>
   'f RobotsParser \<times> string list \<Rightarrow> nat \<times> string \<Rightarrow> 'f RobotsParser \<times> string list" where
  "parse_line float_of int_of st numbered =
     (let (line_num, raw) = numbered;
          line = strip (hd (split_char CHR ''#'' raw))
      in if line = [] then st
         else if CHR '':'' \<notin> set line
         then (add_error (line_error line_num ''Invalid syntax'') (fst st), snd st)
         else
           (let directive = lower (strip (takeWhile (\<lambda>c. c \<noteq> CHR '':'') line));
                val = strip (tl (dropWhile (\<lambda>c. c \<noteq> CHR '':'') line))
            in if directive = ''user-agent'' then on_user_agent val st
               else if directive = ''disallow'' \<or> directive = ''allow''
               then on_allow_disallow (directive = ''allow'') line_num val st
               else if directive = ''crawl-delay'' then on_crawl_delay float_of line_num val st
               else if directive = ''request-rate'' then on_request_rate int_of line_num val st
               else if directive = ''sitemap'' then on_sitemap val st
               else if directive = ''host'' then st
               else (add_error (line_error line_num
                                  (''Unknown directive '' @ [CHR 0x27] @ directive @ [CHR 0x27]))
                       (fst st), snd st)))"

definition numbered_lines :: "string \<Rightarrow> (nat \<times> string) list" where
  "numbered_lines content =
     (let ls = split_char newline content in zip [1 ..< Suc (length ls)] ls)"

definition parse_state ::
  "(string \<Rightarrow> 'f option) \<Rightarrow> (string \<Rightarrow> int option) \<Rightarrow> string \<Rightarrow> 'f RobotsParser \<Rightarrow>
   'f RobotsParser \<times> string list" where
  "parse_state float_of int_of content P =
     foldl (parse_line float_of int_of)
       (P\<lparr>raw_content := content, user_agent_rules := [], sitemaps := [], parse_errors := []\<rparr>,
        [])
       (numbered_lines content)"

definition parse ::
  "(string \<Rightarrow> 'f option) \<Rightarrow> (string \<Rightarrow> int option) \<Rightarrow> string \<Rightarrow> 'f RobotsParser \<Rightarrow>
   'f RobotsParser" where
  "parse float_of int_of content P = fst (parse_state float_of int_of content P)"

text \<open>
  \<open>urlparse\<close> is the standard library's; the functions that call it take it as the
  parameter \<open>urlparse\<close> and use the components below. The model covers the URLs the
  library parses.
\<close>

record parsed_url =
  url_scheme :: string
  url_netloc :: string
  url_path :: string
  url_query :: string

definition is_allowed :: "(string \<Rightarrow> parsed_url) \<Rightarrow> 'f RobotsParser \<Rightarrow> string \<Rightarrow> string \<Rightarrow> bool" where
  "is_allowed urlparse P u ua =
     (let parsed = urlparse u;
          p = url_path parsed;
          p = (if url_query parsed \<noteq> [] then p @ ''?'' @ url_query parsed else p)
      in case map_of (user_agent_rules P) ua of
           Some r \<Rightarrow> rules_is_allowed r p
         | None \<Rightarrow>
             (case map_of (user_agent_rules P) ''*'' of
                Some r \<Rightarrow> rules_is_allowed r p
              | None \<Rightarrow> True))"

text \<open>
  \<open>fetch_and_parse\<close>: \<open>requests.get\<close> is the parameter \<open>requests_get\<close>, from the robots URL, the
  timeout and the user agent to what the call does; \<open>now\<close> is the time stamp
  \<open>datetime.now().isoformat()\<close>.
\<close>

datatype http_outcome =
    Response int string
  | Timeout
  | RequestException string
  | OtherException string

definition fetch_and_parse ::
  "(string \<Rightarrow> parsed_url) \<Rightarrow> (string \<Rightarrow> nat \<Rightarrow> string \<Rightarrow> http_outcome) \<Rightarrow> string \<Rightarrow>
   (string \<Rightarrow> 'f option) \<Rightarrow> (string \<Rightarrow> int option) \<Rightarrow>
   'f RobotsParser \<Rightarrow> string \<Rightarrow> string \<Rightarrow> bool \<times> 'f RobotsParser" where
  "fetch_and_parse urlparse requests_get now float_of int_of P u ua =
     (let parsed = urlparse u;
          robots_url = url_scheme parsed @ ''://'' @ url_netloc parsed @ ''/robots.txt'';
          P = P\<lparr>url := Some robots_url\<rparr>
      in case requests_get robots_url (timeout P) ua of
           Response status_code text \<Rightarrow>
             if status_code = 200
             then (True, (parse float_of int_of text (P\<lparr>raw_content := text\<rparr>))
                           \<lparr>last_fetched := Some now\<rparr>)
             else if status_code = 404
             then (True, P\<lparr>raw_content := []\<rparr>)
             else (False, add_error (''HTTP '' @ str_int status_code) P)
         | Timeout \<Rightarrow> (False, add_error ''Request timed out'' P)
         | RequestException e \<Rightarrow> (False, add_error (''Network error: '' @ e) P)
         | OtherException e \<Rightarrow> (False, add_error (''Error: '' @ e) P))"

section \<open>Custom robots.txt per subdomain\<close>

record 'f CustomRobotsManager =
  custom_robots :: "(string \<times> string) list"
  parsers :: "(string \<times> 'f RobotsParser) list"

definition mk_CustomRobotsManager :: "'f CustomRobotsManager" where
  "mk_CustomRobotsManager = \<lparr>custom_robots = [], parsers = []\<rparr>"

definition add_subdomain ::
  "(string \<Rightarrow> 'f option) \<Rightarrow> (string \<Rightarrow> int option) \<Rightarrow> string \<Rightarrow> string \<Rightarrow>
   'f CustomRobotsManager \<Rightarrow> 'f CustomRobotsManager" where
  "add_subdomain float_of int_of subdomain content M =
     M\<lparr>custom_robots := AList.update subdomain content (custom_robots M),
       parsers := AList.update subdomain (parse float_of int_of content (mk_RobotsParser 10))
                    (parsers M)\<rparr>"

definition remove_subdomain ::
  "string \<Rightarrow> 'f CustomRobotsManager \<Rightarrow> bool \<times> 'f CustomRobotsManager" where
  "remove_subdomain subdomain M =
     (if map_of (custom_robots M) subdomain \<noteq> None
      then (True, M\<lparr>custom_robots := AList.delete subdomain (custom_robots M),
                     parsers := AList.delete subdomain (parsers M)\<rparr>)
      else (False, M))"

definition clear :: "'f CustomRobotsManager \<Rightarrow> 'f CustomRobotsManager" where
  "clear M = M\<lparr>custom_robots := [], parsers := []\<rparr>"

definition manager_is_allowed ::
  "(string \<Rightarrow> parsed_url) \<Rightarrow> 'f CustomRobotsManager \<Rightarrow> string \<Rightarrow> string \<Rightarrow> bool" where
  "manager_is_allowed urlparse M u ua =
     (let subdomain = url_netloc (urlparse u)
      in case map_of (parsers M) subdomain of
           Some P \<Rightarrow> is_allowed urlparse P u ua
         | None \<Rightarrow> True)"

text \<open>The serialised form is the dictionary with the one key \<open>custom_robots\<close>.\<close>

definition to_dict :: "'f CustomRobotsManager \<Rightarrow> (string \<times> (string \<times> string) list) list" where
  "to_dict M = [(''custom_robots'', custom_robots M)]"

definition from_dict ::
  "(string \<Rightarrow> 'f option) \<Rightarrow> (string \<Rightarrow> int option) \<Rightarrow>
   (string \<times> (string \<times> string) list) list \<Rightarrow> 'f CustomRobotsManager \<Rightarrow>
   'f CustomRobotsManager" where
  "from_dict float_of int_of data M =
     fold (\<lambda>(subdomain, content). add_subdomain float_of int_of subdomain content)
       (case map_of data ''custom_robots'' of None \<Rightarrow> [] | Some d \<Rightarrow> d)
       (M\<lparr>custom_robots := [], parsers := []\<rparr>)"

text \<open>The ways a manager comes to be: the methods that change it, applied in any order
  to a new manager.\<close>

datatype manager_op =
    AddSubdomain string string
  | RemoveSubdomain string
  | FromDict "(string \<times> (string \<times> string) list) list"
  | Clear

fun apply_op ::
  "(string \<Rightarrow> 'f option) \<Rightarrow> (string \<Rightarrow> int option) \<Rightarrow> manager_op \<Rightarrow>
   'f CustomRobotsManager \<Rightarrow> 'f CustomRobotsManager" where
  "apply_op float_of int_of (AddSubdomain s c) M = add_subdomain float_of int_of s c M"
| "apply_op float_of int_of (RemoveSubdomain s) M = snd (remove_subdomain s M)"
| "apply_op float_of int_of (FromDict d) M = from_dict float_of int_of d M"
| "apply_op float_of int_of Clear M = clear M"

definition run_ops ::
  "(string \<Rightarrow> 'f option) \<Rightarrow> (string \<Rightarrow> int option) \<Rightarrow> manager_op list \<Rightarrow>
   'f CustomRobotsManager" where
  "run_ops float_of int_of ops = fold (apply_op float_of int_of) ops mk_CustomRobotsManager"

section \<open>Issue exclusion patterns\<close>

text \<open>
  An issue is a dictionary; the filter reads its \<open>url\<close> entry only. \<open>fnmatch\<close> is the
  standard library's and is the parameter \<open>fnmatch\<close> (name first, pattern second), as
  \<open>urlparse\<close> is.
\<close>

type_synonym issue = "(string \<times> string) list"

definition issue_url :: "issue \<Rightarrow> string" where
  "issue_url i = (case map_of i ''url'' of Some u \<Rightarrow> u | None \<Rightarrow> [])"

text \<open>\<open>s.rstrip(chars)\<close>\<close>

definition rstrip_chars :: "string \<Rightarrow> string \<Rightarrow> string" where
  "rstrip_chars chars s = rev (dropWhile (\<lambda>c. c \<in> set chars) (rev s))"

text \<open>The test one pattern makes once it is past the \<open>continue\<close> of blank and comment
  patterns.\<close>

definition pattern_excludes :: "(string \<Rightarrow> string \<Rightarrow> bool) \<Rightarrow> string \<Rightarrow> string \<Rightarrow> bool" where
  "pattern_excludes fnmatch p pat =
     (if CHR ''*'' \<in> set pat then fnmatch p pat
      else p = pat \<or> startswith p (rstrip_chars ''*'' pat))"

definition skipped_pattern :: "string \<Rightarrow> bool" where
  "skipped_pattern pat = (strip pat = [] \<or> startswith (strip pat) ''#'')"

text \<open>The inner loop: the value of \<open>should_exclude\<close> when it ends.\<close>

primrec should_exclude :: "(string \<Rightarrow> string \<Rightarrow> bool) \<Rightarrow> string \<Rightarrow> string list \<Rightarrow> bool" where
  "should_exclude fnmatch p [] = False"
| "should_exclude fnmatch p (pat # pats) =
     (if skipped_pattern pat then should_exclude fnmatch p pats
      else if pattern_excludes fnmatch p pat then True
      else should_exclude fnmatch p pats)"

definition filter_issues_by_exclusion_patterns ::
  "(string \<Rightarrow> parsed_url) \<Rightarrow> (string \<Rightarrow> string \<Rightarrow> bool) \<Rightarrow> issue list \<Rightarrow> string list \<Rightarrow>
   issue list" where
  "filter_issues_by_exclusion_patterns urlparse fnmatch issues exclusion_patterns =
     (if exclusion_patterns = [] then issues
      else filter (\<lambda>i. \<not> should_exclude fnmatch (url_path (urlparse (issue_url i)))
                          exclusion_patterns) issues)"

section \<open>Content analysis\<close>

text \<open>
  \<open>analyze_content\<close> calls the analyzer's counting and scoring methods, which work with
  regular expressions and floating-point numbers; they are the fields of \<open>helpers\<close>, and
  the analysis is modelled over any such methods. \<open>'r\<close> is the type of the scores, \<open>'k\<close> of
  a keyword entry. \<open>math.ceil(word_count / 200)\<close> is written with integer division.
\<close>

record ('r, 'k) content_metrics =
  word_count :: nat
  sentence_count :: nat
  readability_score :: 'r
  flesch_kincaid_grade :: 'r
  gunning_fog_index :: 'r
  reading_time_minutes :: nat
  top_keywords :: "'k list"
  is_thin_content :: bool

record ('r, 'k) helpers =
  count_words :: "string \<Rightarrow> nat"
  count_sentences :: "string \<Rightarrow> nat"
  count_syllables :: "string \<Rightarrow> nat"
  calculate_flesch_kincaid :: "nat \<Rightarrow> nat \<Rightarrow> nat \<Rightarrow> 'r"
  calculate_flesch_kincaid_grade :: "nat \<Rightarrow> nat \<Rightarrow> nat \<Rightarrow> 'r"
  calculate_gunning_fog :: "string \<Rightarrow> nat \<Rightarrow> nat \<Rightarrow> 'r"
  extract_keywords :: "string \<Rightarrow> 'k list"

definition get_empty_result :: "('r::zero, 'k) content_metrics" where
  "get_empty_result =
     \<lparr>word_count = 0, sentence_count = 0, readability_score = 0, flesch_kincaid_grade = 0,
      gunning_fog_index = 0, reading_time_minutes = 0, top_keywords = [],
      is_thin_content = True\<rparr>"

definition analyze_content :: "('r::zero, 'k) helpers \<Rightarrow> string \<Rightarrow> ('r, 'k) content_metrics" where
  "analyze_content H text =
     (if text = [] \<or> strip text = [] then get_empty_result
      else
        (let wc = count_words H text;
             sc = count_sentences H text;
             syl = count_syllables H text
         in if wc = 0 \<or> sc = 0 then get_empty_result
            else
              \<lparr>word_count = wc, sentence_count = sc,
               readability_score = calculate_flesch_kincaid H wc sc syl,
               flesch_kincaid_grade = calculate_flesch_kincaid_grade H wc sc syl,
               gunning_fog_index = calculate_gunning_fog H text wc sc,
               reading_time_minutes = (wc + 199) div 200,
               top_keywords = extract_keywords H text,
               is_thin_content = (wc < 300)\<rparr>))"

section \<open>Crash recovery at startup\<close>

text \<open>
  \<open>recover_crashed_crawls\<close> works on the crawl database through \<open>get_crashed_crawls\<close> and
  \<open>set_crawl_status\<close>. Here they are parameters that return \<open>Inl\<close> of a message where the
  call raises; the \<open>try\<close> of the function ends the sweep at the first such call and leaves
  the database as it then is. The result is the database and the message, if any. What
  the function prints is not modelled.
\<close>

record crawl =
  crawl_id :: int
  base_url :: string
  status :: string

primrec sweep ::
  "(int \<Rightarrow> string \<Rightarrow> 'db \<Rightarrow> string + 'db) \<Rightarrow> crawl list \<Rightarrow> 'db \<Rightarrow> 'db \<times> string option" where
  "sweep set_status [] db = (db, None)"
| "sweep set_status (c # cs) db =
     (case set_status (crawl_id c) ''failed'' db of
        Inl e \<Rightarrow> (db, Some e)
      | Inr db' \<Rightarrow> sweep set_status cs db')"

definition recover_crashed_crawls ::
  "('db \<Rightarrow> string + crawl list) \<Rightarrow> (int \<Rightarrow> string \<Rightarrow> 'db \<Rightarrow> string + 'db) \<Rightarrow> 'db \<Rightarrow>
   'db \<times> string option" where
  "recover_crashed_crawls get_crashed set_status db =
     (case get_crashed db of
        Inl e \<Rightarrow> (db, Some e)
      | Inr crashed \<Rightarrow> if crashed \<noteq> [] then sweep set_status crashed db else (db, None))"

text \<open>
  Modelled from the spec: the module \<open>src.crawl_db\<close> is not among the sources. The
  persisted jobs are a list of rows; the crashed jobs are the rows whose status is
  \<open>running\<close>. The call does not fail.
\<close>

definition get_crashed_crawls :: "crawl list \<Rightarrow> string + crawl list" where
  "get_crashed_crawls db = Inr (filter (\<lambda>c. status c = ''running'') db)"

text \<open>
  Modelled from the spec: setting the status of a job writes it to the rows with the
  given id and leaves the other rows as they are. The call does not fail.
\<close>

definition set_crawl_status :: "int \<Rightarrow> string \<Rightarrow> crawl list \<Rightarrow> string + crawl list" where
  "set_crawl_status cid s db = Inr (map (\<lambda>c. if crawl_id c = cid then c\<lparr>status := s\<rparr> else c) db)"

section \<open>Instances for the examples\<close>

text \<open>
  The examples need a \<open>urlparse\<close>, an \<open>fnmatch\<close>, a \<open>float\<close> and an \<open>int\<close>. \<open>urlparse_basic\<close>
  splits a URL of the form \<open>scheme://netloc/path?query#fragment\<close> (or a stand-alone
  path with an optional query and fragment). \<open>fnmatch_basic\<close> is the matching of names
  against patterns made of ordinary characters and \<open>*\<close>, which stands for any run of
  characters. \<open>int_basic\<close> reads a run of decimal digits, and \<open>float_basic\<close> reads the
  same as a real number.
\<close>

definition urlparse_basic :: "string \<Rightarrow> parsed_url" where
  "urlparse_basic u =
     (let s = takeWhile (\<lambda>c. c \<noteq> CHR '':'') u;
          r = dropWhile (\<lambda>c. c \<noteq> CHR '':'') u;
          has_scheme = (take 3 r = ''://'');
          after = (if has_scheme then drop 3 r else u);
          netloc = (if has_scheme then takeWhile (\<lambda>c. c \<notin> set ''/?#'') after else []);
          rest = (if has_scheme then dropWhile (\<lambda>c. c \<notin> set ''/?#'') after else u);
          nofrag = takeWhile (\<lambda>c. c \<noteq> CHR ''#'') rest
      in \<lparr>url_scheme = (if has_scheme then lower s else []),
          url_netloc = netloc,
          url_path = takeWhile (\<lambda>c. c \<noteq> CHR ''?'') nofrag,
          url_query = drop 1 (dropWhile (\<lambda>c. c \<noteq> CHR ''?'') nofrag)\<rparr>)"

fun glob_match :: "string \<Rightarrow> string \<Rightarrow> bool" where
  "glob_match [] [] = True"
| "glob_match [] (c # cs) = False"
| "glob_match (p # ps) [] = (p = CHR ''*'' \<and> glob_match ps [])"
| "glob_match (p # ps) (c # cs) =
     (if p = CHR ''*'' then glob_match ps (c # cs) \<or> glob_match (p # ps) cs
      else p = c \<and> glob_match ps cs)"

definition fnmatch_basic :: "string \<Rightarrow> string \<Rightarrow> bool" where
  "fnmatch_basic name pat = glob_match pat name"

definition digit_value :: "char \<Rightarrow> nat option" where
  "digit_value c = map_of (zip ''0123456789'' [0 ..< 10]) c"

definition int_basic :: "string \<Rightarrow> int option" where
  "int_basic s =
     (if s \<noteq> [] \<and> list_all (\<lambda>c. digit_value c \<noteq> None) s
      then Some (int (foldl (\<lambda>n c. 10 * n + the (digit_value c)) 0 s))
      else None)"

definition float_basic :: "string \<Rightarrow> real option" where
  "float_basic s = map_option real_of_int (int_basic s)"

section \<open>Inputs of the examples\<close>

definition lines :: "string list \<Rightarrow> string" where
  "lines ls = concat (map (\<lambda>l. l @ [newline]) (butlast ls)) @ last ls"

definition bare_disallow_input :: string where
  "bare_disallow_input = lines [''User-agent: *'', ''Disallow:'']"

definition shared_group_input :: string where
  "shared_group_input = lines [''User-agent: a'', ''User-agent: c'', ''Disallow: /z'']"

definition repeated_agent_input :: string where
  "repeated_agent_input =
     lines [''User-agent: a'', ''Disallow: /x'', ''User-agent: a'', ''User-agent: c'',
            ''Disallow: /z'']"

definition rate_without_slash_input :: string where
  "rate_without_slash_input = lines [''User-agent: *'', ''Request-rate: 5'']"

text \<open>What a rule set holds, for display: the paths of its directives with their allow
  flags, under each agent.\<close>

definition rules_summary :: "'f RobotsParser \<Rightarrow> (string \<times> (string \<times> bool) list) list" where
  "rules_summary P =
     map (\<lambda>(ua, r). (ua, map (\<lambda>d. (path d, allow d)) (directives r))) (user_agent_rules P)"

definition empty_then_admin :: "RobotsDirective list" where
  "empty_then_admin = [mk_RobotsDirective [] False, mk_RobotsDirective ''/admin'' True]"

text \<open>A server without a robots.txt: every request is answered with status 404.\<close>

definition not_found_get :: "string \<Rightarrow> nat \<Rightarrow> string \<Rightarrow> http_outcome" where
  "not_found_get robots_url t ua = Response 404 ''Not Found''"

text \<open>Counting methods for the examples of the content analysis: words are the pieces
  between spaces, sentences the pieces between full stops, every word has one syllable,
  and the scores are the ratio of words to sentences.\<close>

definition pieces :: "char \<Rightarrow> string \<Rightarrow> nat" where
  "pieces sep t = length (filter (\<lambda>w. w \<noteq> []) (split_char sep t))"

definition sample_helpers :: "(real, string) helpers" where
  "sample_helpers =
     \<lparr>count_words = pieces CHR '' '',
      count_sentences = pieces CHR ''.'',
      count_syllables = pieces CHR '' '',
      calculate_flesch_kincaid = (\<lambda>w s y. real w / real s),
      calculate_flesch_kincaid_grade = (\<lambda>w s y. real y / real w),
      calculate_gunning_fog = (\<lambda>t w s. real w / real s),
      extract_keywords = (\<lambda>t. filter (\<lambda>w. w \<noteq> []) (split_char CHR '' '' t))\<rparr>"

definition blank_text :: string where
  "blank_text = [CHR '' '', CHR 0x09, newline, CHR 0xA0, CHR '' '']"

text \<open>A crawl database with two jobs left running and two that are not.\<close>

definition sample_db :: "crawl list" where
  "sample_db =
     [\<lparr>crawl_id = 1, base_url = ''https://a.example'', status = ''running''\<rparr>,
      \<lparr>crawl_id = 2, base_url = ''https://b.example'', status = ''paused''\<rparr>,
      \<lparr>crawl_id = 3, base_url = ''https://c.example'', status = ''running''\<rparr>,
      \<lparr>crawl_id = 4, base_url = ''https://d.example'', status = ''completed''\<rparr>]"

text \<open>Issues for the examples of the exclusion patterns.\<close>

definition json_issue :: issue where
  "json_issue = [(''url'', ''https://example.com/api/data.json?page=2''), (''type'', ''error'')]"

definition html_issue :: issue where
  "html_issue = [(''url'', ''https://example.com/docs/index.html''), (''type'', ''warning'')]"

definition docs_issue :: issue where
  "docs_issue = [(''url'', ''https://example.com/docs/index.html?x=/api''), (''type'', ''info'')]"

section \<open>Managers in step\<close>

text \<open>
  The two dictionaries of a manager are in step when the subdomains of \<open>custom_robots\<close>
  are distinct keys and \<open>parsers\<close> holds, under the same keys and in the same order, the
  parser that \<open>add_subdomain\<close> makes of each content.
\<close>

definition parser_of :: "(string \<Rightarrow> 'f option) \<Rightarrow> (string \<Rightarrow> int option) \<Rightarrow> string \<Rightarrow> 'f RobotsParser" where
  "parser_of float_of int_of content = parse float_of int_of content (mk_RobotsParser 10)"

definition in_step ::
  "(string \<Rightarrow> 'f option) \<Rightarrow> (string \<Rightarrow> int option) \<Rightarrow> 'f CustomRobotsManager \<Rightarrow> bool" where
  "in_step float_of int_of M =
     (distinct (map fst (custom_robots M)) \<and>
      parsers M = map (\<lambda>(s, c). (s, parser_of float_of int_of c)) (custom_robots M))"

text \<open>A sequence of calls for the examples.\<close>

definition sample_ops :: "manager_op list" where
  "sample_ops =
     [AddSubdomain ''a.example.com'' (lines [''User-agent: *'', ''Disallow: /private'']),
      AddSubdomain ''b.example.com'' (lines [''User-agent: *'', ''Disallow: /'']),
      AddSubdomain ''c.example.com'' [],
      RemoveSubdomain ''c.example.com'',
      AddSubdomain ''a.example.com''
        (lines [''User-agent: *'', ''Disallow: /private'', ''Allow: /private/ok''])]"

section \<open>Every path pattern compiles\<close>

lemma re_escape_Cons: "re_escape (c # cs) = esc_unit c @ re_escape cs"
  by (simp add: re_escape_def esc_unit_def)

lemma re_escape_Nil: "re_escape [] = []"
  by (simp add: re_escape_def)

lemma re_special_simps:
  "re_special (CHR 0x5C)" "re_special (CHR ''*'')" "re_special (CHR ''$'')"
  "re_special (CHR ''.'')" "re_special (CHR ''^'')"
  by (simp_all add: re_special_def)

lemma replace_skip:
  "c \<noteq> a \<or> (\<forall>t. s \<noteq> b # t) \<Longrightarrow>
   str_replace [a, b] new (c # s) = c # str_replace [a, b] new s"
  by (cases s) auto

lemma replace_hit: "str_replace [a, b] new (a # b # s) = new @ str_replace [a, b] new s"
  by simp

lemma re_escape_no_star: "re_escape cs \<noteq> CHR ''*'' # t"
  by (cases cs) (auto simp: re_escape_Cons re_escape_Nil esc_unit_def re_special_simps)

lemma replace_star_escape:
  "str_replace [CHR 0x5C, CHR ''*''] ''.*'' (re_escape p) = concat (map star_unit p)"
proof (induction p)
  case Nil
  then show ?case by (simp add: re_escape_Nil)
next
  case (Cons c cs)
  let ?R = "str_replace [CHR 0x5C, CHR ''*''] ''.*''"
  consider (star) "c = CHR ''*''" | (special) "c \<noteq> CHR ''*''" "re_special c" | (plain) "\<not> re_special c"
    by blast
  then show ?case
  proof cases
    case star
    then have "re_escape (c # cs) = CHR 0x5C # CHR ''*'' # re_escape cs"
      by (simp add: re_escape_Cons esc_unit_def re_special_simps)
    with star Cons.IH show ?thesis
      by (simp only: replace_hit) (simp add: star_unit_def)
  next
    case special
    then have e: "re_escape (c # cs) = CHR 0x5C # c # re_escape cs"
      by (simp add: re_escape_Cons esc_unit_def)
    have "?R (CHR 0x5C # c # re_escape cs) = CHR 0x5C # ?R (c # re_escape cs)"
      using special by (intro replace_skip) simp
    also have "?R (c # re_escape cs) = c # ?R (re_escape cs)"
      by (intro replace_skip) (simp add: re_escape_no_star)
    finally show ?thesis
      using special Cons.IH e by (simp add: star_unit_def esc_unit_def)
  next
    case plain
    then have e: "re_escape (c # cs) = c # re_escape cs"
      by (simp add: re_escape_Cons esc_unit_def)
    have "c \<noteq> CHR 0x5C" using plain re_special_simps by blast
    then have "?R (c # re_escape cs) = c # ?R (re_escape cs)"
      by (intro replace_skip) simp
    moreover have "c \<noteq> CHR ''*''" using plain re_special_simps by blast
    ultimately show ?thesis
      using plain Cons.IH e by (simp add: star_unit_def esc_unit_def)
  qed
qed

lemma star_units_no_dollar: "concat (map star_unit cs) \<noteq> CHR ''$'' # t"
  by (cases cs) (auto simp: star_unit_def esc_unit_def re_special_simps)

lemma replace_dollar_star:
  "str_replace [CHR 0x5C, CHR ''$''] ''$'' (concat (map star_unit p)) = concat (map item_unit p)"
proof (induction p)
  case Nil
  then show ?case by simp
next
  case (Cons c cs)
  let ?R = "str_replace [CHR 0x5C, CHR ''$''] ''$''"
  let ?rest = "concat (map star_unit cs)"
  consider (star) "c = CHR ''*''" | (dollar) "c = CHR ''$''"
    | (special) "c \<noteq> CHR ''*''" "c \<noteq> CHR ''$''" "re_special c" | (plain) "\<not> re_special c"
    by blast
  then show ?case
  proof cases
    case star
    have "?R (CHR ''.'' # CHR ''*'' # ?rest) = CHR ''.'' # ?R (CHR ''*'' # ?rest)"
      by (intro replace_skip) simp
    also have "?R (CHR ''*'' # ?rest) = CHR ''*'' # ?R ?rest"
      by (intro replace_skip) simp
    finally show ?thesis
      using star Cons.IH by (simp add: star_unit_def item_unit_def)
  next
    case dollar
    have "?R (CHR 0x5C # CHR ''$'' # ?rest) = ''$'' @ ?R ?rest"
      by (rule replace_hit)
    then show ?thesis
      using dollar Cons.IH by (simp add: star_unit_def esc_unit_def item_unit_def re_special_simps)
  next
    case special
    have "?R (CHR 0x5C # c # ?rest) = CHR 0x5C # ?R (c # ?rest)"
      using special by (intro replace_skip) simp
    also have "?R (c # ?rest) = c # ?R ?rest"
      by (intro replace_skip) (simp add: star_units_no_dollar)
    finally show ?thesis
      using special Cons.IH by (simp add: star_unit_def esc_unit_def item_unit_def)
  next
    case plain
    have ne: "c \<noteq> CHR 0x5C" "c \<noteq> CHR ''*''" "c \<noteq> CHR ''$''"
      using plain re_special_simps by blast+
    then have "?R (c # ?rest) = c # ?R ?rest"
      by (intro replace_skip) simp
    then show ?thesis
      using plain ne Cons.IH by (simp add: star_unit_def esc_unit_def item_unit_def)
  qed
qed

lemma special_not_alnum_aux:
  "\<forall>c \<in> set (''()[]{}?*+-|^$.&~# '' @ [CHR 0x5C, CHR 0x09, CHR 0x0A, CHR 0x0D, CHR 0x0B, CHR 0x0C]).
     \<not> is_ascii_alnum c"
  by (simp add: is_ascii_alnum_def)

lemma special_not_alnum: "re_special c \<Longrightarrow> \<not> is_ascii_alnum c"
  using special_not_alnum_aux unfolding re_special_def by blast

lemma re_compile_items:
  "re_compile t = Some r \<Longrightarrow>
   re_compile (concat (map item_unit p) @ t) = Some (map item_of p @ r)"
proof (induction p)
  case Nil
  then show ?case by simp
next
  case (Cons c cs)
  consider (star) "c = CHR ''*''" | (dollar) "c = CHR ''$''"
    | (special) "c \<noteq> CHR ''*''" "c \<noteq> CHR ''$''" "re_special c" | (plain) "\<not> re_special c"
    by blast
  then show ?case
  proof cases
    case star
    then show ?thesis using Cons by (simp add: item_unit_def star_unit_def item_of_def)
  next
    case dollar
    then show ?thesis using Cons by (simp add: item_unit_def star_unit_def item_of_def)
  next
    case special
    then show ?thesis using Cons special_not_alnum[of c]
      by (simp add: item_unit_def star_unit_def esc_unit_def item_of_def)
  next
    case plain
    moreover have "c \<noteq> CHR 0x5C" "c \<noteq> CHR ''*''" "c \<noteq> CHR ''$''" "c \<noteq> CHR ''.''" "c \<noteq> CHR ''^''"
      using plain re_special_simps by blast+
    ultimately show ?thesis using Cons
      by (simp add: item_unit_def star_unit_def esc_unit_def item_of_def)
  qed
qed

lemma compile_pattern_eq:
  "compile_pattern p =
     Some (Caret # map item_of p @
       (if \<not> endswith (concat (map item_unit p)) ''$'' \<and> \<not> endswith (concat (map item_unit p)) ''.*''
        then [DotStar] else []))"
proof -
  have "re_compile ''.*'' = Some [DotStar]" "re_compile [] = Some []"
    by simp_all
  from re_compile_items[OF this(1), of p] re_compile_items[OF this(2), of p]
  show ?thesis
    by (simp add: compile_pattern_def Let_def replace_star_escape replace_dollar_star)
qed

lemma compile_pattern_total: "\<exists>r. compile_pattern p = Some r"
  by (simp add: compile_pattern_eq)

section \<open>The selection loop of \<open>is_allowed\<close>\<close>

lemma foldl_best_step:
  "foldl (best_step p) acc ds = res \<Longrightarrow>
     (res = None \<longleftrightarrow> acc = None \<and> (\<forall>d\<in>set ds. \<not> matches d p)) \<and>
     (\<forall>d. res = Some d \<longrightarrow>
        (acc = Some d \<or> (d \<in> set ds \<and> matches d p)) \<and>
        (\<forall>e\<in>set ds. matches e p \<longrightarrow> length (path e) \<le> length (path d)) \<and>
        (\<forall>b. acc = Some b \<longrightarrow> length (path b) \<le> length (path d)))"
proof (induction ds arbitrary: acc res)
  case Nil
  then show ?case by auto
next
  case (Cons x xs)
  from Cons.prems have "foldl (best_step p) (best_step p acc x) xs = res" by simp
  from Cons.IH[OF this] show ?case
    by (auto simp: best_step_def split: if_splits option.splits)
qed

lemma best_match_None: "best_match ds p = None \<longleftrightarrow> (\<forall>d\<in>set ds. \<not> matches d p)"
  using foldl_best_step[of p None ds "best_match ds p"] by (simp add: best_match_def)

lemma best_match_Some: "best_match ds p = Some d \<Longrightarrow> longest_matching ds p d"
  using foldl_best_step[of p None ds "Some d"] by (simp add: best_match_def longest_matching_def)

lemma longest_matching_set: "set ds' = set ds \<Longrightarrow> longest_matching ds' p d = longest_matching ds p d"
  by (simp add: longest_matching_def)

lemma rules_is_allowed_cases:
  "(if \<exists>d\<in>set (directives r). matches d p
    then \<exists>d. longest_matching (directives r) p d \<and> rules_is_allowed r p = allow d
    else rules_is_allowed r p)"
proof (cases "best_match (directives r) p")
  case None
  then show ?thesis
    using best_match_None[of "directives r" p] by (simp add: rules_is_allowed_def)
next
  case (Some d)
  then have "longest_matching (directives r) p d" by (rule best_match_Some)
  moreover from this have "\<exists>d\<in>set (directives r). matches d p" "directives r \<noteq> []"
    by (auto simp: longest_matching_def)
  ultimately show ?thesis using Some by (auto simp: rules_is_allowed_def)
qed

section \<open>Longest match wins\<close>

lemma reordered_longest_match:
  assumes "mset ds' = mset (directives r)"
  shows "(if \<exists>d\<in>set (directives r). matches d p
       then \<exists>d. longest_matching (directives r) p d \<and>
                rules_is_allowed (r\<lparr>directives := ds'\<rparr>) p = allow d
       else rules_is_allowed (r\<lparr>directives := ds'\<rparr>) p)"
proof -
  have s: "set ds' = set (directives r)"
    using assms by (rule mset_eq_setD)
  have l: "longest_matching ds' p d = longest_matching (directives r) p d" for d
    using s by (rule longest_matching_set)
  have "directives (r\<lparr>directives := ds'\<rparr>) = ds'" by simp
  from rules_is_allowed_cases[of "r\<lparr>directives := ds'\<rparr>" p, unfolded this]
  have "(if \<exists>d\<in>set ds'. matches d p
       then \<exists>d. longest_matching ds' p d \<and>
                rules_is_allowed (r\<lparr>directives := ds'\<rparr>) p = allow d
       else rules_is_allowed (r\<lparr>directives := ds'\<rparr>) p)" .
  then show ?thesis
    unfolding l s .
qed

lemma private_rules_examples:
  "rules_is_allowed private_rules ''/private/public.html''"
  "\<not> rules_is_allowed private_rules ''/private/other''"
  "rules_is_allowed (private_rules\<lparr>directives := rev (directives private_rules)\<rparr>)
     ''/private/public.html''"
  "\<not> rules_is_allowed (private_rules\<lparr>directives := rev (directives private_rules)\<rparr>)
     ''/private/other''"
  by code_simp+

text \<open>
  Claim C1. Whatever the order in which the directives of a rule set are declared,
  \<open>is_allowed\<close> returns, when some directive matches the path, the allow flag of a
  matching directive whose pattern string is of maximal length among the matching ones,
  and allows the path when no directive matches. For the rules
  \<open>Disallow: /private/\<close>, \<open>Allow: /private/public.html\<close>, in either order,
  \<open>/private/public.html\<close> is allowed and \<open>/private/other\<close> is denied.
\<close>

theorem is_allowed_longest_match:
  "(mset ds' = mset (directives r) \<longrightarrow>
      (if \<exists>d\<in>set (directives r). matches d p
       then \<exists>d. longest_matching (directives r) p d \<and>
                rules_is_allowed (r\<lparr>directives := ds'\<rparr>) p = allow d
       else rules_is_allowed (r\<lparr>directives := ds'\<rparr>) p))
   \<and> rules_is_allowed private_rules ''/private/public.html''
   \<and> \<not> rules_is_allowed private_rules ''/private/other''
   \<and> rules_is_allowed (private_rules\<lparr>directives := rev (directives private_rules)\<rparr>)
        ''/private/public.html''
   \<and> \<not> rules_is_allowed (private_rules\<lparr>directives := rev (directives private_rules)\<rparr>)
        ''/private/other''"
proof (intro conjI impI)
  assume "mset ds' = mset (directives r)"
  then show "if \<exists>d\<in>set (directives r). matches d p
       then \<exists>d. longest_matching (directives r) p d \<and>
                rules_is_allowed (r\<lparr>directives := ds'\<rparr>) p = allow d
       else rules_is_allowed (r\<lparr>directives := ds'\<rparr>) p"
    by (rule reordered_longest_match)
qed (rule private_rules_examples)+

theorem is_allowed_longest_match_witness:
  "mset (rev (directives private_rules)) = mset (directives private_rules)
   \<and> (\<exists>d\<in>set (directives private_rules). matches d ''/private/other'')
   \<and> (\<exists>d. longest_matching (directives private_rules) ''/private/other'' d \<and>
           rules_is_allowed (private_rules\<lparr>directives := rev (directives private_rules)\<rparr>)
             ''/private/other'' = allow d)"
proof -
  have m: "mset (rev (directives private_rules)) = mset (directives private_rules)"
    by simp
  have ex: "\<exists>d\<in>set (directives private_rules). matches d ''/private/other''"
    by code_simp
  have "if \<exists>d\<in>set (directives private_rules). matches d ''/private/other''
       then \<exists>d. longest_matching (directives private_rules) ''/private/other'' d \<and>
                rules_is_allowed (private_rules\<lparr>directives := rev (directives private_rules)\<rparr>)
                  ''/private/other'' = allow d
       else rules_is_allowed (private_rules\<lparr>directives := rev (directives private_rules)\<rparr>)
              ''/private/other''"
    using is_allowed_longest_match[of "rev (directives private_rules)" private_rules
        "''/private/other''"] m by (elim conjE impE) 
  with ex have "\<exists>d. longest_matching (directives private_rules) ''/private/other'' d \<and>
           rules_is_allowed (private_rules\<lparr>directives := rev (directives private_rules)\<rparr>)
             ''/private/other'' = allow d"
    by (simp only: if_True)
  with m ex show ?thesis by (intro conjI)
qed

section \<open>The empty path\<close>

lemma compile_pattern_empty: "compile_pattern [] = Some [Caret, DotStar]"
  by (simp add: compile_pattern_eq endswith_def)

lemma re_match_caret_dotstar: "re_match [Caret, DotStar] s"
  by (cases s) (simp_all add: re_match_def)

lemma matches_empty_path: "matches (mk_RobotsDirective [] a) p"
  by (simp add: matches_def mk_RobotsDirective_def compile_pattern_empty re_match_caret_dotstar)

lemma only_empty_disallow:
  assumes "directives r = [mk_RobotsDirective [] False]"
  shows "\<not> rules_is_allowed r p"
proof -
  have "best_match (directives r) p = Some (mk_RobotsDirective [] False)"
    using matches_empty_path[of False p]
    by (simp add: assms best_match_def best_step_def)
  then show ?thesis
    by (simp add: rules_is_allowed_def assms mk_RobotsDirective_def)
qed

lemma empty_path_wins_only_alone:
  assumes "best_match ds p = Some d" and "path d = []" and "e \<in> set ds" and "matches e p"
  shows "path e = []"
proof -
  from assms(1) have "longest_matching ds p d" by (rule best_match_Some)
  with assms(3,4) have "length (path e) \<le> length (path d)"
    by (simp add: longest_matching_def)
  with assms(2) show ?thesis by simp
qed

lemma bare_disallow_rules:
  "rules_summary (parse float_of int_of bare_disallow_input (mk_RobotsParser 10)) =
     [(''*'', [([], False)])]"
  by code_simp

text \<open>
  Claim C9. A directive with the empty path, such as the one a bare \<open>Disallow:\<close> line
  gives, compiles to an expression that matches every path. A rule set whose only
  directive is the empty \<open>Disallow\<close> denies every path. When the directive that
  \<open>is_allowed\<close> selects has the empty path, every directive of the rule set that matches
  the path has the empty path too: no directive with a non-empty pattern matches.
\<close>

theorem empty_path_matches_all:
  "rules_summary (parse float_of int_of bare_disallow_input (mk_RobotsParser 10)) =
     [(''*'', [([], False)])]
   \<and> compile_pattern [] = Some [Caret, DotStar]
   \<and> matches (mk_RobotsDirective [] a) p
   \<and> (directives r = [mk_RobotsDirective [] False] \<longrightarrow> \<not> rules_is_allowed r p)
   \<and> (best_match ds p = Some d \<and> path d = [] \<longrightarrow>
        (\<forall>e \<in> set ds. matches e p \<longrightarrow> path e = []))"
proof (intro conjI impI ballI)
  show "rules_summary (parse float_of int_of bare_disallow_input (mk_RobotsParser 10)) =
     [(''*'', [([], False)])]"
    by (rule bare_disallow_rules)
  show "compile_pattern [] = Some [Caret, DotStar]"
    by (rule compile_pattern_empty)
  show "matches (mk_RobotsDirective [] a) p"
    by (rule matches_empty_path)
next
  assume "directives r = [mk_RobotsDirective [] False]"
  then show "\<not> rules_is_allowed r p" by (rule only_empty_disallow)
next
  fix e
  assume "best_match ds p = Some d \<and> path d = []" and "e \<in> set ds" and "matches e p"
  then show "path e = []"
    using empty_path_wins_only_alone[of ds p d e] by simp
qed

theorem empty_path_matches_all_witness:
  "directives ((mk_UserAgentRules ''*'' :: real UserAgentRules)
       \<lparr>directives := [mk_RobotsDirective [] False]\<rparr>) = [mk_RobotsDirective [] False]
   \<and> \<not> rules_is_allowed ((mk_UserAgentRules ''*'' :: real UserAgentRules)
       \<lparr>directives := [mk_RobotsDirective [] False]\<rparr>) ''/any/path''
   \<and> best_match empty_then_admin ''/index.html'' = Some (mk_RobotsDirective [] False)
   \<and> path (mk_RobotsDirective [] False) = []
   \<and> \<not> matches (mk_RobotsDirective ''/admin'' True) ''/index.html''"
proof -
  let ?r = "(mk_UserAgentRules ''*'' :: real UserAgentRules)
       \<lparr>directives := [mk_RobotsDirective [] False]\<rparr>"
  have d: "directives ?r = [mk_RobotsDirective [] False]" by simp
  have b: "best_match empty_then_admin ''/index.html'' = Some (mk_RobotsDirective [] False)"
    by code_simp
  have p: "path (mk_RobotsDirective [] False) = []"
    by (simp add: mk_RobotsDirective_def)
  have 1: "\<not> rules_is_allowed ?r ''/any/path''"
    using empty_path_matches_all[of "\<lambda>s. None :: real option" "\<lambda>s. None" False
      "''/any/path''" ?r "[]" "mk_RobotsDirective [] False"] d by blast
  have m: "mk_RobotsDirective ''/admin'' True \<in> set empty_then_admin"
    by (simp add: empty_then_admin_def)
  have n: "path (mk_RobotsDirective ''/admin'' True) \<noteq> []"
    by (simp add: mk_RobotsDirective_def)
  have 2: "\<not> matches (mk_RobotsDirective ''/admin'' True) ''/index.html''"
    using empty_path_matches_all[of "\<lambda>s. None :: real option" "\<lambda>s. None" False
      "''/index.html''" ?r empty_then_admin "mk_RobotsDirective [] False"] b p m n by blast
  from d 1 b p 2 show ?thesis by (intro conjI)
qed

section \<open>A missing robots.txt\<close>

lemma is_allowed_no_rules: "user_agent_rules P = [] \<Longrightarrow> is_allowed urlparse P u ua"
  by (simp add: is_allowed_def Let_def)

lemma fetch_404:
  assumes "requests_get (url_scheme (urlparse u) @ ''://'' @ url_netloc (urlparse u) @
             ''/robots.txt'') t ua = Response 404 body"
  shows "fetch_and_parse urlparse requests_get now float_of int_of (mk_RobotsParser t) u ua =
     (True, (mk_RobotsParser t)
        \<lparr>url := Some (url_scheme (urlparse u) @ ''://'' @ url_netloc (urlparse u) @
                       ''/robots.txt'')\<rparr>)"
  using assms by (simp add: fetch_and_parse_def Let_def mk_RobotsParser_def)

text \<open>
  Claim C2. When the request for robots.txt made by \<open>fetch_and_parse\<close> on a newly
  constructed parser is answered with status 404, the call returns \<open>True\<close>, the parser
  has no parse errors and no rules, and \<open>is_allowed\<close> then answers \<open>True\<close> for every URL
  and every user agent.
\<close>

theorem fetch_404_allows_all:
  "requests_get (url_scheme (urlparse u) @ ''://'' @ url_netloc (urlparse u) @ ''/robots.txt'')
     t ua = Response 404 body \<longrightarrow>
   fst (fetch_and_parse urlparse requests_get now float_of int_of (mk_RobotsParser t) u ua)
   \<and> parse_errors
        (snd (fetch_and_parse urlparse requests_get now float_of int_of (mk_RobotsParser t) u ua))
       = []
   \<and> user_agent_rules
        (snd (fetch_and_parse urlparse requests_get now float_of int_of (mk_RobotsParser t) u ua))
       = []
   \<and> (\<forall>u' ua'. is_allowed urlparse
        (snd (fetch_and_parse urlparse requests_get now float_of int_of (mk_RobotsParser t) u ua))
        u' ua')"
proof
  assume a: "requests_get (url_scheme (urlparse u) @ ''://'' @ url_netloc (urlparse u) @
     ''/robots.txt'') t ua = Response 404 body"
  have f: "fetch_and_parse urlparse requests_get now float_of int_of (mk_RobotsParser t) u ua =
     (True, (mk_RobotsParser t)
        \<lparr>url := Some (url_scheme (urlparse u) @ ''://'' @ url_netloc (urlparse u) @
                       ''/robots.txt'')\<rparr>)"
    using a by (rule fetch_404[where requests_get = requests_get and urlparse = urlparse])
  have r: "user_agent_rules
        (snd (fetch_and_parse urlparse requests_get now float_of int_of (mk_RobotsParser t) u ua))
       = []"
    unfolding f by (simp add: mk_RobotsParser_def)
  have e: "parse_errors
        (snd (fetch_and_parse urlparse requests_get now float_of int_of (mk_RobotsParser t) u ua))
       = []"
    unfolding f by (simp add: mk_RobotsParser_def)
  have s: "fst (fetch_and_parse urlparse requests_get now float_of int_of (mk_RobotsParser t) u ua)"
    unfolding f by simp
  from s e r is_allowed_no_rules[OF r]
  show "fst (fetch_and_parse urlparse requests_get now float_of int_of (mk_RobotsParser t) u ua)
   \<and> parse_errors
        (snd (fetch_and_parse urlparse requests_get now float_of int_of (mk_RobotsParser t) u ua))
       = []
   \<and> user_agent_rules
        (snd (fetch_and_parse urlparse requests_get now float_of int_of (mk_RobotsParser t) u ua))
       = []
   \<and> (\<forall>u' ua'. is_allowed urlparse
        (snd (fetch_and_parse urlparse requests_get now float_of int_of (mk_RobotsParser t) u ua))
        u' ua')"
    by blast
qed

theorem fetch_404_allows_all_witness:
  "not_found_get (url_scheme (urlparse_basic ''http://example.com/page'') @ ''://'' @
     url_netloc (urlparse_basic ''http://example.com/page'') @ ''/robots.txt'') 10 ''bot''
     = Response 404 ''Not Found''
   \<and> fst (fetch_and_parse urlparse_basic not_found_get ''2024-01-01T00:00:00'' float_basic
            int_basic (mk_RobotsParser 10) ''http://example.com/page'' ''bot'')
   \<and> parse_errors (snd (fetch_and_parse urlparse_basic not_found_get ''2024-01-01T00:00:00''
            float_basic int_basic (mk_RobotsParser 10) ''http://example.com/page'' ''bot'')) = []
   \<and> is_allowed urlparse_basic (snd (fetch_and_parse urlparse_basic not_found_get
            ''2024-01-01T00:00:00'' float_basic int_basic (mk_RobotsParser 10)
            ''http://example.com/page'' ''bot'')) ''http://example.com/private/x?y=1'' ''bot''"
proof -
  have a: "not_found_get (url_scheme (urlparse_basic ''http://example.com/page'') @ ''://'' @
     url_netloc (urlparse_basic ''http://example.com/page'') @ ''/robots.txt'') 10 ''bot''
     = Response 404 ''Not Found''"
    by (simp add: not_found_get_def)
  from fetch_404_allows_all[of not_found_get urlparse_basic "''http://example.com/page''" 10
      "''bot''" "''Not Found''" "''2024-01-01T00:00:00''" float_basic int_basic] a
  show ?thesis by blast
qed

section \<open>Groups of user agents\<close>

lemma user_agent_joins:
  assumes "cur = [] \<or> (\<forall>r. map_of (ensure_rules val (user_agent_rules P)) (hd cur) = Some r
             \<longrightarrow> directives r = [])"
  shows "snd (on_user_agent val (P, cur)) = cur @ [val]"
  using assms by (auto simp: on_user_agent_def Let_def split: option.splits)

lemma user_agent_starts_group:
  assumes "cur \<noteq> []" and "map_of (ensure_rules val (user_agent_rules P)) (hd cur) = Some r"
    and "directives r \<noteq> []"
  shows "snd (on_user_agent val (P, cur)) = [val]"
  using assms by (simp add: on_user_agent_def Let_def)

lemma shared_group_rules:
  "rules_summary (parse float_of int_of shared_group_input (mk_RobotsParser 10)) =
     [(''a'', [(''/z'', False)]), (''c'', [(''/z'', False)])]"
  by code_simp

lemma repeated_agent_rules:
  "rules_summary (parse float_of int_of repeated_agent_input (mk_RobotsParser 10)) =
     [(''a'', [(''/x'', False)]), (''c'', [(''/z'', False)])]"
  by code_simp

lemma repeated_agent_allowed:
  "is_allowed urlparse_basic (parse float_of int_of repeated_agent_input (mk_RobotsParser 10))
     ''http://example.com/z'' ''a''"
  by code_simp

text \<open>
  Claim C4. In the input \<open>repeated_agent_input\<close> the lines \<open>User-agent: a\<close> and
  \<open>User-agent: c\<close> follow each other with no directive between them, after an earlier
  group of \<open>a\<close> with the directive \<open>Disallow: /x\<close>. The parser does not put the two agents
  in one group: the directive \<open>Disallow: /z\<close> that follows is attached to \<open>c\<close> only, and
  \<open>/z\<close> stays allowed for \<open>a\<close>. Where no agent of the group has directives from earlier
  lines, as in \<open>shared_group_input\<close>, the directive is attached to both agents.
\<close>

theorem repeated_agent_splits_group:
  "rules_summary (parse float_of int_of repeated_agent_input (mk_RobotsParser 10)) =
     [(''a'', [(''/x'', False)]), (''c'', [(''/z'', False)])]
   \<and> is_allowed urlparse_basic
        (parse float_of int_of repeated_agent_input (mk_RobotsParser 10))
        ''http://example.com/z'' ''a''
   \<and> rules_summary (parse float_of int_of shared_group_input (mk_RobotsParser 10)) =
     [(''a'', [(''/z'', False)]), (''c'', [(''/z'', False)])]"
  by (intro conjI repeated_agent_rules repeated_agent_allowed shared_group_rules)

section \<open>Malformed crawl-delay and request-rate values\<close>

lemma crawl_delay_malformed:
  assumes "float_of val = None"
  shows "on_crawl_delay float_of line_num val (P, cur) =
     (add_error (line_error line_num ''Invalid crawl-delay value'') P, cur)"
  using assms by (simp add: on_crawl_delay_def)

lemma request_rate_malformed_parts:
  assumes "split_char CHR ''/'' val = [a, b]" and "int_of a = None \<or> int_of b = None"
  shows "on_request_rate int_of line_num val (P, cur) =
     (add_error (line_error line_num ''Invalid request-rate value'') P, cur)"
  using assms by (auto simp: on_request_rate_def Let_def split: option.splits)

lemma request_rate_other_shape:
  assumes "length (split_char CHR ''/'' val) \<noteq> 2"
  shows "on_request_rate int_of line_num val st = st"
  using assms by (simp add: on_request_rate_def Let_def split: prod.splits)

lemma rate_without_slash_errors:
  "parse_errors (parse float_of int_of rate_without_slash_input (mk_RobotsParser 10)) = []"
  by code_simp

lemma rate_without_slash_rate:
  "map (\<lambda>(ua, r). (ua, request_rate r))
     (user_agent_rules (parse float_of int_of rate_without_slash_input (mk_RobotsParser 10))) =
     [(''*'', None)]"
  by code_simp

text \<open>
  Claim C5. The value \<open>5\<close> of the line \<open>Request-rate: 5\<close> of \<open>rate_without_slash_input\<close> is
  not of the form \<open>N/M\<close>. Whatever \<open>int\<close> and \<open>float\<close> accept, parsing the input records no
  parse error; the request rate of the rule set stays unset.
\<close>

theorem rate_without_slash_not_recorded:
  "parse_errors (parse float_of int_of rate_without_slash_input (mk_RobotsParser 10)) = []
   \<and> map (\<lambda>(ua, r). (ua, request_rate r))
        (user_agent_rules (parse float_of int_of rate_without_slash_input (mk_RobotsParser 10))) =
       [(''*'', None)]"
  by (intro conjI rate_without_slash_errors rate_without_slash_rate)

section \<open>Blank text\<close>

lemma strip_blank:
  assumes "\<forall>c \<in> set text. isspace c"
  shows "strip text = []"
proof -
  from assms have d: "dropWhile isspace text = []" by simp
  show ?thesis unfolding strip_def lstrip_def rstrip_def d by simp
qed

lemma analyze_blank:
  assumes "\<forall>c \<in> set text. isspace c"
  shows "analyze_content H text = get_empty_result"
  using strip_blank[OF assms] by (simp add: analyze_content_def)

text \<open>
  Claim C6. For a text that is empty or made of whitespace characters only,
  \<open>analyze_content\<close> returns the empty result: the word count, the sentence count, the
  three scores and the reading time are zero, there are no keywords, and the content is
  thin.
\<close>

theorem analyze_content_blank:
  "(\<forall>c \<in> set text. isspace c) \<longrightarrow>
     analyze_content H text = get_empty_result
     \<and> word_count (analyze_content H text) = 0
     \<and> sentence_count (analyze_content H text) = 0
     \<and> readability_score (analyze_content H text) = 0
     \<and> flesch_kincaid_grade (analyze_content H text) = 0
     \<and> gunning_fog_index (analyze_content H text) = 0
     \<and> reading_time_minutes (analyze_content H text) = 0
     \<and> top_keywords (analyze_content H text) = []
     \<and> is_thin_content (analyze_content H text)"
proof
  assume "\<forall>c \<in> set text. isspace c"
  then have e: "analyze_content H text = get_empty_result" by (rule analyze_blank)
  show "analyze_content H text = get_empty_result
     \<and> word_count (analyze_content H text) = 0
     \<and> sentence_count (analyze_content H text) = 0
     \<and> readability_score (analyze_content H text) = 0
     \<and> flesch_kincaid_grade (analyze_content H text) = 0
     \<and> gunning_fog_index (analyze_content H text) = 0
     \<and> reading_time_minutes (analyze_content H text) = 0
     \<and> top_keywords (analyze_content H text) = []
     \<and> is_thin_content (analyze_content H text)"
    unfolding e by (simp add: get_empty_result_def)
qed

theorem analyze_content_blank_witness:
  "list_all isspace blank_text
   \<and> blank_text \<noteq> []
   \<and> word_count (analyze_content sample_helpers blank_text) = 0
   \<and> readability_score (analyze_content sample_helpers blank_text) = 0
   \<and> top_keywords (analyze_content sample_helpers blank_text) = []
   \<and> is_thin_content (analyze_content sample_helpers blank_text)
   \<and> word_count (analyze_content sample_helpers []) = 0
   \<and> is_thin_content (analyze_content sample_helpers [])
   \<and> word_count (analyze_content sample_helpers ''One two. Three.'') = 3"
proof -
  have a: "list_all isspace blank_text"
    by (simp add: blank_text_def isspace_def newline_def)
  then have b: "\<forall>c \<in> set blank_text. isspace c"
    by (simp add: list_all_iff)
  have n: "blank_text \<noteq> []" by (simp add: blank_text_def)
  have w: "word_count (analyze_content sample_helpers ''One two. Three.'') = 3"
    by code_simp
  have e: "\<forall>c \<in> set ([] :: string). isspace c" by simp
  from analyze_content_blank[of blank_text sample_helpers] b
  have 1: "word_count (analyze_content sample_helpers blank_text) = 0"
    "readability_score (analyze_content sample_helpers blank_text) = 0"
    "top_keywords (analyze_content sample_helpers blank_text) = []"
    "is_thin_content (analyze_content sample_helpers blank_text)"
    by blast+
  from analyze_content_blank[of "[]" sample_helpers] e
  have 2: "word_count (analyze_content sample_helpers []) = 0"
    "is_thin_content (analyze_content sample_helpers [])"
    by blast+
  from a n 1 2 w show ?thesis by (intro conjI)
qed

section \<open>The recovery sweep\<close>

lemma sweep_marks:
  "sweep set_crawl_status cs db =
     (map (\<lambda>c. if crawl_id c \<in> crawl_id ` set cs then c\<lparr>status := ''failed''\<rparr> else c) db,
      None)"
proof (induction cs arbitrary: db)
  case Nil
  then show ?case by (simp add: map_idI)
next
  case (Cons x xs)
  let ?g = "\<lambda>c. if crawl_id c = crawl_id x then c\<lparr>status := ''failed''\<rparr> else c"
  let ?f = "\<lambda>c. if crawl_id c \<in> crawl_id ` set xs then c\<lparr>status := ''failed''\<rparr> else c"
  have "sweep set_crawl_status (x # xs) db = sweep set_crawl_status xs (map ?g db)"
    by (simp add: set_crawl_status_def)
  also have "\<dots> = (map ?f (map ?g db), None)"
    by (rule Cons.IH)
  also have "map ?f (map ?g db) =
      map (\<lambda>c. if crawl_id c \<in> crawl_id ` set (x # xs) then c\<lparr>status := ''failed''\<rparr> else c) db"
    by (induction db) auto
  finally show ?case .
qed

lemma recover_marks:
  "recover_crashed_crawls get_crashed_crawls set_crawl_status db =
     (map (\<lambda>c. if crawl_id c \<in> crawl_id ` {r \<in> set db. status r = ''running''}
                then c\<lparr>status := ''failed''\<rparr> else c) db,
      None)"
proof (cases "filter (\<lambda>c. status c = ''running'') db = []")
  case True
  then have em: "{r \<in> set db. status r = ''running''} = {}"
    by (auto simp: filter_empty_conv)
  have "map (\<lambda>c. if crawl_id c \<in> crawl_id ` {r \<in> set db. status r = ''running''}
                then c\<lparr>status := ''failed''\<rparr> else c) db = db"
    unfolding em by simp
  with True show ?thesis
    by (simp add: recover_crashed_crawls_def get_crashed_crawls_def)
next
  case False
  then show ?thesis
    by (simp add: recover_crashed_crawls_def get_crashed_crawls_def sweep_marks)
qed

lemma recover_get_fails:
  "get_crashed db = Inl e \<Longrightarrow> recover_crashed_crawls get_crashed set_status db = (db, Some e)"
  by (simp add: recover_crashed_crawls_def)

text \<open>
  Claim C3. The sweep, run on the persisted jobs, ends without an error; it keeps the
  jobs, their ids and their base URLs; every job whose stored status was \<open>running\<close> has
  the status \<open>failed\<close> afterwards; no job has the status \<open>running\<close> afterwards, so none is
  resumed; and when the ids are distinct, the jobs that were not running are as before.
\<close>

theorem sweep_running_to_failed:
  "snd (recover_crashed_crawls get_crashed_crawls set_crawl_status db) = None
   \<and> map crawl_id (fst (recover_crashed_crawls get_crashed_crawls set_crawl_status db))
       = map crawl_id db
   \<and> map base_url (fst (recover_crashed_crawls get_crashed_crawls set_crawl_status db))
       = map base_url db
   \<and> (\<forall>i < length db. status (db ! i) = ''running'' \<longrightarrow>
         fst (recover_crashed_crawls get_crashed_crawls set_crawl_status db) ! i
           = (db ! i)\<lparr>status := ''failed''\<rparr>)
   \<and> (\<forall>c \<in> set (fst (recover_crashed_crawls get_crashed_crawls set_crawl_status db)).
         status c \<noteq> ''running'')
   \<and> (distinct (map crawl_id db) \<longrightarrow>
        (\<forall>i < length db. status (db ! i) \<noteq> ''running'' \<longrightarrow>
           fst (recover_crashed_crawls get_crashed_crawls set_crawl_status db) ! i = db ! i))"
proof (intro conjI allI impI ballI)
  let ?R = "crawl_id ` {r \<in> set db. status r = ''running''}"
  let ?f = "\<lambda>c. if crawl_id c \<in> ?R then c\<lparr>status := ''failed''\<rparr> else c"
  have r: "fst (recover_crashed_crawls get_crashed_crawls set_crawl_status db) = map ?f db"
    by (simp add: recover_marks)
  show "snd (recover_crashed_crawls get_crashed_crawls set_crawl_status db) = None"
    by (simp add: recover_marks)
  show "map crawl_id (fst (recover_crashed_crawls get_crashed_crawls set_crawl_status db))
       = map crawl_id db"
    unfolding r by (induction db) auto
  show "map base_url (fst (recover_crashed_crawls get_crashed_crawls set_crawl_status db))
       = map base_url db"
    unfolding r by (induction db) auto
  {
    fix i
    assume i: "i < length db" and s: "status (db ! i) = ''running''"
    from i s have "crawl_id (db ! i) \<in> ?R" by (auto intro!: imageI)
    with i show "fst (recover_crashed_crawls get_crashed_crawls set_crawl_status db) ! i
           = (db ! i)\<lparr>status := ''failed''\<rparr>"
      unfolding r by simp
  }
  {
    fix c
    assume "c \<in> set (fst (recover_crashed_crawls get_crashed_crawls set_crawl_status db))"
    then obtain x where x: "x \<in> set db" and c: "c = ?f x"
      unfolding r by auto
    show "status c \<noteq> ''running''"
    proof (cases "crawl_id x \<in> ?R")
      case True
      with c show ?thesis by simp
    next
      case False
      with x have "status x \<noteq> ''running''" by auto
      with False c show ?thesis by simp
    qed
  }
  {
    fix i
    assume d: "distinct (map crawl_id db)" and i: "i < length db"
      and s: "status (db ! i) \<noteq> ''running''"
    have "crawl_id (db ! i) \<notin> ?R"
    proof
      assume "crawl_id (db ! i) \<in> ?R"
      then obtain x where x: "x \<in> set db" and xs: "status x = ''running''"
        and xi: "crawl_id x = crawl_id (db ! i)" by auto
      from x obtain j where j: "j < length db" and xj: "x = db ! j"
        by (auto simp: in_set_conv_nth)
      from d i j xi xj have "i = j"
        using nth_eq_iff_index_eq[of "map crawl_id db" i j] by simp
      with xs xj s show False by simp
    qed
    with i show "fst (recover_crashed_crawls get_crashed_crawls set_crawl_status db) ! i = db ! i"
      unfolding r by simp
  }
qed

theorem sweep_running_to_failed_witness:
  "status (sample_db ! 0) = ''running''
   \<and> fst (recover_crashed_crawls get_crashed_crawls set_crawl_status sample_db) ! 0
       = (sample_db ! 0)\<lparr>status := ''failed''\<rparr>
   \<and> distinct (map crawl_id sample_db)
   \<and> status (sample_db ! 1) = ''paused''
   \<and> fst (recover_crashed_crawls get_crashed_crawls set_crawl_status sample_db) ! 1
       = sample_db ! 1
   \<and> map status (fst (recover_crashed_crawls get_crashed_crawls set_crawl_status sample_db))
       = [''failed'', ''paused'', ''failed'', ''completed'']"
proof -
  have l: "(0::nat) < length sample_db" "(1::nat) < length sample_db"
    by (simp_all add: sample_db_def)
  have s0: "status (sample_db ! 0) = ''running''" by (simp add: sample_db_def)
  have s1: "status (sample_db ! 1) = ''paused''" by (simp add: sample_db_def)
  have n1: "status (sample_db ! 1) \<noteq> ''running''" by (simp add: sample_db_def)
  have d: "distinct (map crawl_id sample_db)" by (simp add: sample_db_def)
  have m: "map status (fst (recover_crashed_crawls get_crashed_crawls set_crawl_status sample_db))
       = [''failed'', ''paused'', ''failed'', ''completed'']"
    by code_simp
  from sweep_running_to_failed[of sample_db] l s0 n1 d
  have "fst (recover_crashed_crawls get_crashed_crawls set_crawl_status sample_db) ! 0
       = (sample_db ! 0)\<lparr>status := ''failed''\<rparr>"
    and "fst (recover_crashed_crawls get_crashed_crawls set_crawl_status sample_db) ! 1
       = sample_db ! 1"
    by blast+
  with s0 d s1 m show ?thesis by (intro conjI)
qed

section \<open>Exclusion patterns\<close>

lemma should_exclude_iff:
  "should_exclude fnmatch p pats \<longleftrightarrow>
     (\<exists>pat \<in> set pats. \<not> skipped_pattern pat \<and> pattern_excludes fnmatch p pat)"
  by (induction pats) auto

lemma rstrip_chars_no_star:
  assumes "CHR ''*'' \<notin> set pat"
  shows "rstrip_chars ''*'' pat = pat"
proof (cases "rev pat")
  case Nil
  then show ?thesis by (simp add: rstrip_chars_def)
next
  case (Cons c cs)
  then have "c \<in> set pat" by (metis list.set_intros(1) set_rev)
  with assms have "c \<noteq> CHR ''*''" by auto
  with Cons have "dropWhile (\<lambda>c. c \<in> set ''*'') (rev pat) = rev pat" by simp
  then show ?thesis by (simp add: rstrip_chars_def)
qed

lemma startswith_self: "startswith p p"
  by (simp add: startswith_def)

lemma pattern_excludes_plain:
  assumes "CHR ''*'' \<notin> set pat"
  shows "pattern_excludes fnmatch p pat \<longleftrightarrow> p = pat \<or> startswith p pat"
  using assms by (simp add: pattern_excludes_def rstrip_chars_no_star)

lemma filter_single:
  "filter_issues_by_exclusion_patterns urlparse fnmatch [i] pats = [] \<longleftrightarrow>
     should_exclude fnmatch (url_path (urlparse (issue_url i))) pats"
  by (cases pats) (simp_all add: filter_issues_by_exclusion_patterns_def)

lemma filter_idempotent:
  "filter_issues_by_exclusion_patterns urlparse fnmatch
     (filter_issues_by_exclusion_patterns urlparse fnmatch issues pats) pats =
   filter_issues_by_exclusion_patterns urlparse fnmatch issues pats"
  by (simp add: filter_issues_by_exclusion_patterns_def)

lemma glob_literal:
  "CHR ''*'' \<notin> set lit \<Longrightarrow> glob_match lit s \<longleftrightarrow> s = lit"
proof (induction lit arbitrary: s)
  case Nil
  then show ?case by (cases s) simp_all
next
  case (Cons a lit)
  then show ?case by (cases s) auto
qed

lemma endswith_Nil: "endswith [] lit \<longleftrightarrow> lit = []"
  by (auto simp: endswith_def)

lemma endswith_Cons: "endswith (c # cs) lit \<longleftrightarrow> c # cs = lit \<or> endswith cs lit"
proof (cases "length lit \<le> length cs")
  case True
  then have "Suc (length cs) - length lit = Suc (length cs - length lit)" by simp
  with True show ?thesis by (auto simp: endswith_def)
next
  case False
  then show ?thesis by (auto simp: endswith_def)
qed

lemma glob_star_suffix:
  assumes "CHR ''*'' \<notin> set lit"
  shows "glob_match (CHR ''*'' # lit) s \<longleftrightarrow> endswith s lit"
proof (induction s)
  case Nil
  show ?case using glob_literal[OF assms, of "[]"] by (auto simp: endswith_Nil)
next
  case (Cons c cs)
  show ?case
    using glob_literal[OF assms, of "c # cs"] Cons.IH by (auto simp: endswith_Cons)
qed

lemma star_json_excludes:
  "should_exclude fnmatch_basic p [''*.json''] \<longleftrightarrow> endswith p ''.json''"
proof -
  have "\<not> skipped_pattern ''*.json''"
    by (simp add: skipped_pattern_def strip_def lstrip_def rstrip_def isspace_def startswith_def)
  moreover have "pattern_excludes fnmatch_basic p ''*.json'' \<longleftrightarrow> endswith p ''.json''"
    using glob_star_suffix[of "''.json''" p] by (simp add: pattern_excludes_def fnmatch_basic_def)
  ultimately show ?thesis by simp
qed

lemma html_not_json: "endswith p ''.html'' \<Longrightarrow> \<not> endswith p ''.json''"
  by (auto simp: endswith_def)

text \<open>
  Claim C7. Filtering the result of the filter again, with the same patterns, gives the
  same list. With the pattern \<open>*.json\<close>, an issue whose URL path ends in \<open>.json\<close> is
  removed and an issue whose URL path ends in \<open>.html\<close> is kept.
\<close>

theorem filter_idempotent_json:
  "filter_issues_by_exclusion_patterns urlparse fnmatch
     (filter_issues_by_exclusion_patterns urlparse fnmatch issues pats) pats =
   filter_issues_by_exclusion_patterns urlparse fnmatch issues pats
   \<and> (endswith (url_path (urlparse (issue_url i))) ''.json'' \<longrightarrow>
        filter_issues_by_exclusion_patterns urlparse fnmatch_basic [i] [''*.json''] = [])
   \<and> (endswith (url_path (urlparse (issue_url i))) ''.html'' \<longrightarrow>
        filter_issues_by_exclusion_patterns urlparse fnmatch_basic [i] [''*.json''] = [i])"
proof (intro conjI impI)
  show "filter_issues_by_exclusion_patterns urlparse fnmatch
     (filter_issues_by_exclusion_patterns urlparse fnmatch issues pats) pats =
   filter_issues_by_exclusion_patterns urlparse fnmatch issues pats"
    by (rule filter_idempotent)
next
  assume "endswith (url_path (urlparse (issue_url i))) ''.json''"
  then show "filter_issues_by_exclusion_patterns urlparse fnmatch_basic [i] [''*.json''] = []"
    by (simp only: filter_single star_json_excludes)
next
  assume "endswith (url_path (urlparse (issue_url i))) ''.html''"
  then have "\<not> endswith (url_path (urlparse (issue_url i))) ''.json''"
    by (rule html_not_json)
  then have "\<not> should_exclude fnmatch_basic (url_path (urlparse (issue_url i))) [''*.json'']"
    by (simp only: star_json_excludes simp_thms)
  then show "filter_issues_by_exclusion_patterns urlparse fnmatch_basic [i] [''*.json''] = [i]"
    by (simp add: filter_issues_by_exclusion_patterns_def)
qed

theorem filter_idempotent_json_witness:
  "endswith (url_path (urlparse_basic (issue_url json_issue))) ''.json''
   \<and> filter_issues_by_exclusion_patterns urlparse_basic fnmatch_basic [json_issue] [''*.json'']
       = []
   \<and> endswith (url_path (urlparse_basic (issue_url html_issue))) ''.html''
   \<and> filter_issues_by_exclusion_patterns urlparse_basic fnmatch_basic [html_issue] [''*.json'']
       = [html_issue]
   \<and> filter_issues_by_exclusion_patterns urlparse_basic fnmatch_basic
        [json_issue, html_issue] [''*.json''] = [html_issue]"
proof -
  have j: "endswith (url_path (urlparse_basic (issue_url json_issue))) ''.json''"
    by code_simp
  have h: "endswith (url_path (urlparse_basic (issue_url html_issue))) ''.html''"
    by code_simp
  have b: "filter_issues_by_exclusion_patterns urlparse_basic fnmatch_basic
        [json_issue, html_issue] [''*.json''] = [html_issue]"
    by code_simp
  from filter_idempotent_json[of urlparse_basic fnmatch_basic "[]" "[]" json_issue] j
  have 1: "filter_issues_by_exclusion_patterns urlparse_basic fnmatch_basic [json_issue]
       [''*.json''] = []"
    by blast
  from filter_idempotent_json[of urlparse_basic fnmatch_basic "[]" "[]" html_issue] h
  have 2: "filter_issues_by_exclusion_patterns urlparse_basic fnmatch_basic [html_issue]
       [''*.json''] = [html_issue]"
    by blast
  from j 1 h 2 b show ?thesis by (intro conjI)
qed

text \<open>
  Claim C8. Whether an issue is excluded depends on the path of its URL only: two issues
  whose URLs have the same path are both excluded or both kept, whatever their query
  strings. A pattern that is neither blank nor a comment excludes the issue exactly when
  the path matches it as a glob, if the pattern contains \<open>*\<close>, and exactly when the path
  is the pattern or starts with it, if it does not. With a list of patterns, the issues
  kept are those that no such pattern of the list excludes.
\<close>

theorem exclusion_by_path:
  "(url_path (urlparse (issue_url i)) = url_path (urlparse (issue_url j)) \<longrightarrow>
      (filter_issues_by_exclusion_patterns urlparse fnmatch [i] pats = [] \<longleftrightarrow>
       filter_issues_by_exclusion_patterns urlparse fnmatch [j] pats = []))
   \<and> (\<not> skipped_pattern pat \<longrightarrow>
      (filter_issues_by_exclusion_patterns urlparse fnmatch [i] [pat] = [] \<longleftrightarrow>
         (if CHR ''*'' \<in> set pat then fnmatch (url_path (urlparse (issue_url i))) pat
          else url_path (urlparse (issue_url i)) = pat
               \<or> startswith (url_path (urlparse (issue_url i))) pat)))
   \<and> (pats \<noteq> [] \<longrightarrow>
      filter_issues_by_exclusion_patterns urlparse fnmatch issues pats =
        filter (\<lambda>i. \<not> (\<exists>pat \<in> set pats. \<not> skipped_pattern pat \<and>
           (if CHR ''*'' \<in> set pat then fnmatch (url_path (urlparse (issue_url i))) pat
            else url_path (urlparse (issue_url i)) = pat
                 \<or> startswith (url_path (urlparse (issue_url i))) pat))) issues)"
proof (intro conjI impI)
  assume "url_path (urlparse (issue_url i)) = url_path (urlparse (issue_url j))"
  then show "filter_issues_by_exclusion_patterns urlparse fnmatch [i] pats = [] \<longleftrightarrow>
       filter_issues_by_exclusion_patterns urlparse fnmatch [j] pats = []"
    by (simp add: filter_single)
next
  have e: "pattern_excludes fnmatch p q \<longleftrightarrow>
      (if CHR ''*'' \<in> set q then fnmatch p q else p = q \<or> startswith p q)" for p q
    by (simp add: pattern_excludes_plain) (simp add: pattern_excludes_def)
  {
    assume "\<not> skipped_pattern pat"
    then show "filter_issues_by_exclusion_patterns urlparse fnmatch [i] [pat] = [] \<longleftrightarrow>
         (if CHR ''*'' \<in> set pat then fnmatch (url_path (urlparse (issue_url i))) pat
          else url_path (urlparse (issue_url i)) = pat
               \<or> startswith (url_path (urlparse (issue_url i))) pat)"
      unfolding filter_single e[symmetric] by simp
  }
  {
    assume "pats \<noteq> []"
    then show "filter_issues_by_exclusion_patterns urlparse fnmatch issues pats =
        filter (\<lambda>i. \<not> (\<exists>pat \<in> set pats. \<not> skipped_pattern pat \<and>
           (if CHR ''*'' \<in> set pat then fnmatch (url_path (urlparse (issue_url i))) pat
            else url_path (urlparse (issue_url i)) = pat
                 \<or> startswith (url_path (urlparse (issue_url i))) pat))) issues"
      unfolding e[symmetric] by (simp add: filter_issues_by_exclusion_patterns_def should_exclude_iff)
  }
qed

theorem exclusion_by_path_witness:
  "url_path (urlparse_basic (issue_url html_issue)) = url_path (urlparse_basic (issue_url docs_issue))
   \<and> issue_url html_issue \<noteq> issue_url docs_issue
   \<and> \<not> skipped_pattern ''/docs''
   \<and> startswith (url_path (urlparse_basic (issue_url html_issue))) ''/docs''
   \<and> filter_issues_by_exclusion_patterns urlparse_basic fnmatch_basic [html_issue] [''/docs''] = []
   \<and> filter_issues_by_exclusion_patterns urlparse_basic fnmatch_basic [docs_issue] [''/docs''] = []
   \<and> filter_issues_by_exclusion_patterns urlparse_basic fnmatch_basic [docs_issue] [''/api'']
       = [docs_issue]"
proof -
  have p: "url_path (urlparse_basic (issue_url html_issue)) =
      url_path (urlparse_basic (issue_url docs_issue))"
    by code_simp
  have u: "issue_url html_issue \<noteq> issue_url docs_issue"
    by code_simp
  have k: "\<not> skipped_pattern ''/docs''"
    by code_simp
  have s: "startswith (url_path (urlparse_basic (issue_url html_issue))) ''/docs''"
    by code_simp
  have n: "CHR ''*'' \<notin> set ''/docs''"
    by simp
  have a: "filter_issues_by_exclusion_patterns urlparse_basic fnmatch_basic [docs_issue] [''/api'']
       = [docs_issue]"
    by code_simp
  note t = exclusion_by_path[of urlparse_basic html_issue docs_issue fnmatch_basic "[''/docs'']"
      "''/docs''" "[]"]
  from t k n s
  have 1: "filter_issues_by_exclusion_patterns urlparse_basic fnmatch_basic [html_issue]
      [''/docs''] = []"
    by (simp only: if_False simp_thms)
  from t p 1
  have 2: "filter_issues_by_exclusion_patterns urlparse_basic fnmatch_basic [docs_issue]
      [''/docs''] = []"
    by blast
  from p u k s 1 2 a show ?thesis by (intro conjI)
qed

section \<open>Saving and loading the custom robots.txt\<close>

lemma update_map_values:
  "map (\<lambda>(s, c). (s, f c)) (AList.update k v al) =
     AList.update k (f v) (map (\<lambda>(s, c). (s, f c)) al)"
  by (induction al) auto

lemma delete_map_values:
  "map (\<lambda>(s, c). (s, f c)) (AList.delete k al) =
     AList.delete k (map (\<lambda>(s, c). (s, f c)) al)"
  by (induction al) auto

lemma update_fresh:
  "k \<notin> fst ` set al \<Longrightarrow> AList.update k v al = al @ [(k, v)]"
  by (induction al) auto

lemma fold_update_distinct:
  "distinct (map fst (acc @ d)) \<Longrightarrow>
     fold (\<lambda>(k, v). AList.update k v) d acc = acc @ d"
proof (induction d arbitrary: acc)
  case Nil
  then show ?case by simp
next
  case (Cons x d)
  obtain k v where x: "x = (k, v)" by (cases x)
  from Cons.prems x have f: "k \<notin> fst ` set acc" by auto
  from Cons.prems x have "distinct (map fst ((acc @ [(k, v)]) @ d))" by auto
  from Cons.IH[OF this] show ?case
    by (simp add: x update_fresh[OF f])
qed

lemma in_step_new: "in_step float_of int_of mk_CustomRobotsManager"
  by (simp add: in_step_def mk_CustomRobotsManager_def)

lemma in_step_add:
  assumes "in_step float_of int_of M"
  shows "in_step float_of int_of (add_subdomain float_of int_of s c M)"
  using assms
  by (simp add: in_step_def add_subdomain_def parser_of_def update_map_values distinct_update)

lemma in_step_remove:
  assumes "in_step float_of int_of M"
  shows "in_step float_of int_of (snd (remove_subdomain s M))"
  using assms
  by (simp add: in_step_def remove_subdomain_def delete_map_values distinct_delete)

lemma in_step_clear: "in_step float_of int_of (clear M)"
  by (simp add: in_step_def clear_def)

lemma in_step_fold_add:
  "in_step float_of int_of M \<Longrightarrow>
   in_step float_of int_of
     (fold (\<lambda>(subdomain, content). add_subdomain float_of int_of subdomain content) d M)"
proof (induction d arbitrary: M)
  case Nil
  then show ?case by simp
next
  case (Cons x d)
  obtain s c where x: "x = (s, c)" by (cases x)
  from Cons.prems have "in_step float_of int_of (add_subdomain float_of int_of s c M)"
    by (rule in_step_add)
  from Cons.IH[OF this] show ?case by (simp add: x)
qed

lemma in_step_from_dict: "in_step float_of int_of (from_dict float_of int_of data M)"
proof -
  have "in_step float_of int_of (M\<lparr>custom_robots := [], parsers := []\<rparr>)"
    by (simp add: in_step_def)
  then show ?thesis
    unfolding from_dict_def by (rule in_step_fold_add)
qed

lemma in_step_apply:
  "in_step float_of int_of M \<Longrightarrow> in_step float_of int_of (apply_op float_of int_of op M)"
  by (cases op) (simp_all add: in_step_add in_step_remove in_step_from_dict in_step_clear)

lemma in_step_fold_ops:
  "in_step float_of int_of M \<Longrightarrow>
   in_step float_of int_of (fold (apply_op float_of int_of) ops M)"
  by (induction ops arbitrary: M) (simp_all add: in_step_apply)

lemma in_step_run: "in_step float_of int_of (run_ops float_of int_of ops)"
  unfolding run_ops_def by (rule in_step_fold_ops) (rule in_step_new)

lemma fold_add_custom_robots:
  "custom_robots
     (fold (\<lambda>(subdomain, content). add_subdomain float_of int_of subdomain content) d M) =
   fold (\<lambda>(k, v). AList.update k v) d (custom_robots M)"
proof (induction d arbitrary: M)
  case Nil
  then show ?case by simp
next
  case (Cons x d)
  obtain s c where x: "x = (s, c)" by (cases x)
  have "custom_robots (add_subdomain float_of int_of s c M) =
      AList.update s c (custom_robots M)"
    by (simp add: add_subdomain_def)
  then show ?case by (simp add: x Cons.IH)
qed

lemma reload_custom_robots:
  assumes "in_step float_of int_of M"
  shows "custom_robots (from_dict float_of int_of (to_dict M) N) = custom_robots M"
proof -
  from assms have "distinct (map fst ([] @ custom_robots M))"
    by (simp add: in_step_def)
  then have "fold (\<lambda>(k, v). AList.update k v) (custom_robots M) [] = [] @ custom_robots M"
    by (rule fold_update_distinct)
  then show ?thesis
    by (simp add: from_dict_def to_dict_def fold_add_custom_robots)
qed

lemma reload_parsers:
  assumes "in_step float_of int_of M"
  shows "parsers (from_dict float_of int_of (to_dict M) N) = parsers M"
proof -
  have "in_step float_of int_of (from_dict float_of int_of (to_dict M) N)"
    by (rule in_step_from_dict)
  then have "parsers (from_dict float_of int_of (to_dict M) N) =
      map (\<lambda>(s, c). (s, parser_of float_of int_of c))
        (custom_robots (from_dict float_of int_of (to_dict M) N))"
    by (simp add: in_step_def)
  also have "\<dots> = map (\<lambda>(s, c). (s, parser_of float_of int_of c)) (custom_robots M)"
    by (simp add: reload_custom_robots[OF assms])
  also have "\<dots> = parsers M"
    using assms by (simp add: in_step_def)
  finally show ?thesis .
qed

lemma sample_ops_state:
  "map fst (custom_robots (run_ops float_basic int_basic sample_ops)) =
     [''a.example.com'', ''b.example.com'']"
  "manager_is_allowed urlparse_basic (run_ops float_basic int_basic sample_ops)
     ''http://a.example.com/private/ok'' ''bot''"
  "\<not> manager_is_allowed urlparse_basic (run_ops float_basic int_basic sample_ops)
     ''http://a.example.com/private/x'' ''bot''"
  "\<not> manager_is_allowed urlparse_basic (run_ops float_basic int_basic sample_ops)
     ''http://b.example.com/'' ''bot''"
  "manager_is_allowed urlparse_basic (run_ops float_basic int_basic sample_ops)
     ''http://c.example.com/private/x'' ''bot''"
  by code_simp+

text \<open>
  Claim C10. Every manager that a sequence of calls of \<open>add_subdomain\<close>,
  \<open>remove_subdomain\<close>, \<open>from_dict\<close> and \<open>clear\<close> leaves, starting from a new manager, has
  its two dictionaries in step. For every manager \<open>M\<close> whose dictionaries are in step,
  loading what \<open>to_dict\<close> returns into any manager \<open>N\<close> with \<open>from_dict\<close> gives the contents
  of \<open>M\<close> under the same subdomains, in the same order, the parsers of \<open>M\<close>, and a manager
  whose \<open>is_allowed\<close> answers as \<open>M\<close> does on every URL and every user agent.
\<close>

theorem to_dict_from_dict_roundtrip:
  "in_step float_of int_of (run_ops float_of int_of ops)
   \<and> (in_step float_of int_of M \<longrightarrow>
        custom_robots (from_dict float_of int_of (to_dict M) N) = custom_robots M
        \<and> parsers (from_dict float_of int_of (to_dict M) N) = parsers M
        \<and> manager_is_allowed urlparse (from_dict float_of int_of (to_dict M) N) u ua =
            manager_is_allowed urlparse M u ua)"
proof (intro conjI impI)
  show "in_step float_of int_of (run_ops float_of int_of ops)"
    by (rule in_step_run)
next
  assume s: "in_step float_of int_of M"
  then show "custom_robots (from_dict float_of int_of (to_dict M) N) = custom_robots M"
    by (rule reload_custom_robots)
  from s show p: "parsers (from_dict float_of int_of (to_dict M) N) = parsers M"
    by (rule reload_parsers)
  show "manager_is_allowed urlparse (from_dict float_of int_of (to_dict M) N) u ua =
      manager_is_allowed urlparse M u ua"
    by (simp add: manager_is_allowed_def p)
qed

theorem to_dict_from_dict_roundtrip_witness:
  "in_step float_basic int_basic (run_ops float_basic int_basic sample_ops)
   \<and> map fst (custom_robots (from_dict float_basic int_basic
        (to_dict (run_ops float_basic int_basic sample_ops)) mk_CustomRobotsManager)) =
       [''a.example.com'', ''b.example.com'']
   \<and> custom_robots (from_dict float_basic int_basic
        (to_dict (run_ops float_basic int_basic sample_ops)) mk_CustomRobotsManager) =
       custom_robots (run_ops float_basic int_basic sample_ops)
   \<and> manager_is_allowed urlparse_basic (from_dict float_basic int_basic
        (to_dict (run_ops float_basic int_basic sample_ops)) mk_CustomRobotsManager)
        ''http://a.example.com/private/ok'' ''bot''
   \<and> \<not> manager_is_allowed urlparse_basic (from_dict float_basic int_basic
        (to_dict (run_ops float_basic int_basic sample_ops)) mk_CustomRobotsManager)
        ''http://a.example.com/private/x'' ''bot''
   \<and> \<not> manager_is_allowed urlparse_basic (from_dict float_basic int_basic
        (to_dict (run_ops float_basic int_basic sample_ops)) mk_CustomRobotsManager)
        ''http://b.example.com/'' ''bot''"
proof -
  let ?M = "run_ops float_basic int_basic sample_ops"
  let ?R = "from_dict float_basic int_basic (to_dict ?M) mk_CustomRobotsManager"
  have s: "in_step float_basic int_basic ?M"
    using to_dict_from_dict_roundtrip[of float_basic int_basic sample_ops ?M
        mk_CustomRobotsManager urlparse_basic "[]" "[]"]
    by (rule conjunct1)
  have c: "custom_robots ?R = custom_robots ?M"
    using to_dict_from_dict_roundtrip[of float_basic int_basic sample_ops ?M
        mk_CustomRobotsManager urlparse_basic "[]" "[]"] s
    by blast
  have a: "manager_is_allowed urlparse_basic ?R u ua = manager_is_allowed urlparse_basic ?M u ua"
    for u ua
    using to_dict_from_dict_roundtrip[of float_basic int_basic sample_ops ?M
        mk_CustomRobotsManager urlparse_basic u ua] s
    by blast
  have k: "map fst (custom_robots ?R) = [''a.example.com'', ''b.example.com'']"
    unfolding c by (rule sample_ops_state(1))
  have 1: "manager_is_allowed urlparse_basic ?R ''http://a.example.com/private/ok'' ''bot''"
    unfolding a by (rule sample_ops_state(2))
  have 2: "\<not> manager_is_allowed urlparse_basic ?R ''http://a.example.com/private/x'' ''bot''"
    unfolding a by (rule sample_ops_state(3))
  have 3: "\<not> manager_is_allowed urlparse_basic ?R ''http://b.example.com/'' ''bot''"
    unfolding a by (rule sample_ops_state(4))
  from s k c 1 2 3 show ?thesis by (intro conjI)
qed

end
